theory Spec2Isabelle
  imports Complex_Main
begin

section \<open>Vitals dashboard: data model\<close>

text \<open>
  The component \<open>VitalsDashboard\<close> keeps, for each of six vital signs, a list of
  \<open>{ time, value }\<close> objects. A time stamp is the ISO rendering of a \<open>Date\<close>; it is
  modelled by the number of milliseconds since the epoch that the \<open>Date\<close> holds.
  The loop counter and the window length are integers.
\<close>

record point =
  d_time :: int
  d_heartRate :: real
  d_bloodPressureSystolic :: real
  d_bloodPressureDiastolic :: real
  d_temperature :: real
  d_oxygenSaturation :: real
  d_respirationRate :: real

record sample =
  time :: int
  val :: real

record vitals =
  heartRate :: "sample list"
  bloodPressureSystolic :: "sample list"
  bloodPressureDiastolic :: "sample list"
  temperature :: "sample list"
  oxygenSaturation :: "sample list"
  respirationRate :: "sample list"

datatype timeRange = T1h | T6h | T24h | T7d

subsection \<open>Number arithmetic\<close>

text \<open>
  The values are Numbers (IEEE doubles): every \<open>+\<close>, \<open>-\<close>, \<open>*\<close> and \<open>/\<close> of the
  source rounds its result, \<open>Math.sin\<close> is an approximation chosen by the engine, and
  the literal \<open>98.6\<close> denotes the Number nearest to it. A Number is modelled by the real
  that it denotes, and the operations of the engine are a parameter \<open>ar\<close> of every
  definition that computes a value. The integer literals and \<open>0.5\<close> are Numbers exactly,
  and \<open>Math.floor\<close> is exact on Numbers.
\<close>

record arith =
  num_lit :: "real \<Rightarrow> real"
  num_add :: "real \<Rightarrow> real \<Rightarrow> real"
  num_sub :: "real \<Rightarrow> real \<Rightarrow> real"
  num_mul :: "real \<Rightarrow> real \<Rightarrow> real"
  num_div :: "real \<Rightarrow> real \<Rightarrow> real"
  num_sin :: "real \<Rightarrow> real"

definition Math_floor :: "real \<Rightarrow> real" where
  "Math_floor x = of_int \<lfloor>x\<rfloor>"

text \<open>
  \<open>Math.random()\<close> is an input of the model: \<open>rs\<close> is the sequence of the Numbers it
  returns, in call order.
\<close>

type_synonym rng = "nat \<Rightarrow> real"

section \<open>Mock signal generator\<close>

text \<open>
  The object pushed by one iteration of the loop of \<open>generateMockData\<close>; the six
  calls of \<open>Math.random()\<close> take the draws \<open>n, ..., n + 5\<close> in the order of the fields.
  Each value is written with the operations and the grouping of the source expression,
  e.g. \<open>(Math.floor(Math.random() * 30) + 70) + (Math.sin(i / 10) * 10)\<close>.
\<close>

definition mock_point :: "arith \<Rightarrow> int \<Rightarrow> rng \<Rightarrow> nat \<Rightarrow> int \<Rightarrow> point" where
  "mock_point ar now rs n i =
     \<lparr> d_time = now - i * 5 * 60000,
       d_heartRate =
         num_add ar (num_add ar (Math_floor (num_mul ar (rs n) 30)) 70)
           (num_mul ar (num_sin ar (num_div ar (of_int i) 10)) 10),
       d_bloodPressureSystolic =
         num_add ar (num_add ar (Math_floor (num_mul ar (rs (n + 1)) 20)) 110)
           (num_mul ar (num_sin ar (num_div ar (of_int i) 8)) 5),
       d_bloodPressureDiastolic =
         num_add ar (num_add ar (Math_floor (num_mul ar (rs (n + 2)) 15)) 70)
           (num_mul ar (num_sin ar (num_div ar (of_int i) 8)) 3),
       d_temperature =
         num_add ar
           (num_add ar (num_lit ar (986 / 10)) (num_mul ar (num_sub ar (rs (n + 3)) (5 / 10)) 2))
           (num_mul ar (num_sin ar (num_div ar (of_int i) 15)) (5 / 10)),
       d_oxygenSaturation =
         num_add ar (num_add ar (Math_floor (num_mul ar (rs (n + 4)) 5)) 95)
           (num_mul ar (num_sin ar (num_div ar (of_int i) 12)) 2),
       d_respirationRate =
         num_add ar (num_add ar (Math_floor (num_mul ar (rs (n + 5)) 8)) 16)
           (num_mul ar (num_sin ar (num_div ar (of_int i) 7)) 2) \<rparr>"

text \<open>
  \<open>for (let i = hours * 12; i >= 0; i--) data.push(...)\<close>: the loop, with the counter
  \<open>i\<close>, the position \<open>n\<close> in the random sequence and the array \<open>data\<close> built so far.
\<close>

function gen_loop :: "arith \<Rightarrow> int \<Rightarrow> rng \<Rightarrow> int \<Rightarrow> nat \<Rightarrow> point list \<Rightarrow> point list" where
  "gen_loop ar now rs i n data =
     (if i \<ge> 0 then gen_loop ar now rs (i - 1) (n + 6) (data @ [mock_point ar now rs n i])
      else data)"
  by pat_completeness auto
termination
  by (relation "measure (\<lambda>(ar, now, rs, i, n, data). nat (i + 1))") auto

declare gen_loop.simps [simp del]

definition generateMockData :: "arith \<Rightarrow> int \<Rightarrow> rng \<Rightarrow> int \<Rightarrow> point list" where
  "generateMockData ar now rs hours = gen_loop ar now rs (hours * 12) 0 []"

text \<open>The object handed to \<open>setVitalsData\<close> by the first effect: six projections of \<open>data\<close>.\<close>

definition vitals_of_data :: "point list \<Rightarrow> vitals" where
  "vitals_of_data data =
     \<lparr> heartRate = map (\<lambda>d. \<lparr> time = d_time d, val = d_heartRate d \<rparr>) data,
       bloodPressureSystolic = map (\<lambda>d. \<lparr> time = d_time d, val = d_bloodPressureSystolic d \<rparr>) data,
       bloodPressureDiastolic = map (\<lambda>d. \<lparr> time = d_time d, val = d_bloodPressureDiastolic d \<rparr>) data,
       temperature = map (\<lambda>d. \<lparr> time = d_time d, val = d_temperature d \<rparr>) data,
       oxygenSaturation = map (\<lambda>d. \<lparr> time = d_time d, val = d_oxygenSaturation d \<rparr>) data,
       respirationRate = map (\<lambda>d. \<lparr> time = d_time d, val = d_respirationRate d \<rparr>) data \<rparr>"

definition hours_of :: "timeRange \<Rightarrow> int" where
  "hours_of tr = (if tr = T1h then 1 else if tr = T6h then 6 else if tr = T24h then 24 else 168)"

text \<open>The body of the first effect, run on mount and whenever \<open>timeRange\<close> changes.\<close>

definition window_effect :: "arith \<Rightarrow> int \<Rightarrow> rng \<Rightarrow> timeRange \<Rightarrow> vitals" where
  "window_effect ar now rs tr = vitals_of_data (generateMockData ar now rs (hours_of tr))"

section \<open>Rolling window updater\<close>

text \<open>
  \<open>xs.slice(-k)\<close>: the last \<open>k\<close> elements, all of \<open>xs\<close> when it has fewer
  (the start index is \<open>max (length - k) 0\<close>).
\<close>

definition slice_last :: "nat \<Rightarrow> 'a list \<Rightarrow> 'a list" where
  "slice_last k xs = drop (if length xs \<ge> k then length xs - k else 0) xs"

definition newPoint :: "arith \<Rightarrow> int \<Rightarrow> rng \<Rightarrow> point" where
  "newPoint ar now rs =
     \<lparr> d_time = now,
       d_heartRate = num_add ar (Math_floor (num_mul ar (rs 0) 30)) 70,
       d_bloodPressureSystolic = num_add ar (Math_floor (num_mul ar (rs 1) 20)) 110,
       d_bloodPressureDiastolic = num_add ar (Math_floor (num_mul ar (rs 2) 15)) 70,
       d_temperature =
         num_add ar (num_lit ar (986 / 10)) (num_mul ar (num_sub ar (rs 3) (5 / 10)) 2),
       d_oxygenSaturation = num_add ar (Math_floor (num_mul ar (rs 4) 5)) 95,
       d_respirationRate = num_add ar (Math_floor (num_mul ar (rs 5) 8)) 16 \<rparr>"

text \<open>The updater passed to \<open>setVitalsData\<close> by the interval callback.\<close>

definition tick :: "arith \<Rightarrow> int \<Rightarrow> rng \<Rightarrow> vitals \<Rightarrow> vitals" where
  "tick ar now rs prev =
     (let p = newPoint ar now rs in
      \<lparr> heartRate = slice_last 50 (heartRate prev) @ [\<lparr> time = now, val = d_heartRate p \<rparr>],
        bloodPressureSystolic =
          slice_last 50 (bloodPressureSystolic prev) @ [\<lparr> time = now, val = d_bloodPressureSystolic p \<rparr>],
        bloodPressureDiastolic =
          slice_last 50 (bloodPressureDiastolic prev) @ [\<lparr> time = now, val = d_bloodPressureDiastolic p \<rparr>],
        temperature = slice_last 50 (temperature prev) @ [\<lparr> time = now, val = d_temperature p \<rparr>],
        oxygenSaturation =
          slice_last 50 (oxygenSaturation prev) @ [\<lparr> time = now, val = d_oxygenSaturation p \<rparr>],
        respirationRate =
          slice_last 50 (respirationRate prev) @ [\<lparr> time = now, val = d_respirationRate p \<rparr>] \<rparr>)"

section \<open>The component as a state machine\<close>

text \<open>
  The state of a mounted \<open>VitalsDashboard\<close>: the two \<open>useState\<close> cells, the prop
  \<open>isRealTime\<close>, and the interval registered by \<open>setInterval\<close>, if any: \<open>interval\<close>
  holds the time at which its callback is due next, and \<open>clearInterval\<close> resets it to
  \<open>None\<close>. The timer is ideal: the callback of \<open>setInterval(f, 5000)\<close>, registered
  at the time \<open>t\<close>, runs at the times \<open>t + 5000\<close>, \<open>t + 10000\<close>, ..., and the
  \<open>new Date()\<close> of a callback reads the time at which it is due. \<open>mounted\<close> is cleared
  by the unmount. The state \<open>{}\<close> that \<open>vitalsData\<close> holds during the first render is
  replaced by the first effect before any interval can fire, so \<open>mount\<close> gives the state
  after the effects of the first render, both run at the time \<open>now\<close>.
\<close>

record dashboard =
  timeRange :: timeRange
  vitalsData :: vitals
  isRealTime :: bool
  interval :: "int option"
  mounted :: bool

datatype event =
    SetTimeRange timeRange int rng
  | Elapse rng
  | SetIsRealTime bool int
  | Unmount

definition mount :: "arith \<Rightarrow> int \<Rightarrow> rng \<Rightarrow> bool \<Rightarrow> dashboard" where
  "mount ar now rs rt =
     \<lparr> timeRange = T6h, vitalsData = window_effect ar now rs T6h,
       isRealTime = rt, interval = (if rt then Some (now + 5000) else None), mounted = True \<rparr>"

text \<open>
  \<open>SetTimeRange tr now rs\<close>: a click on a range button at the time \<open>now\<close>; the effect
  with dependency \<open>[timeRange]\<close> runs only when the value changes. \<open>Elapse rs\<close>: the
  registered interval comes due and its callback runs, with the draws \<open>rs\<close>; the next
  run is due 5000 ms later. Without a registered interval nothing runs.
  \<open>SetIsRealTime rt now\<close>: the parent changes the prop at the time \<open>now\<close>; the cleanup
  clears the interval and the effect registers a new one when the flag is set.
  \<open>Unmount\<close>: the cleanup clears the interval.
\<close>

fun step :: "arith \<Rightarrow> dashboard \<Rightarrow> event \<Rightarrow> dashboard" where
  "step ar s (SetTimeRange tr now rs) =
     (if mounted s \<and> tr \<noteq> timeRange s
      then s\<lparr> timeRange := tr, vitalsData := window_effect ar now rs tr \<rparr> else s)"
| "step ar s (Elapse rs) =
     (case interval s of
        None \<Rightarrow> s
      | Some due \<Rightarrow>
          if mounted s
          then s\<lparr> vitalsData := tick ar due rs (vitalsData s), interval := Some (due + 5000) \<rparr>
          else s)"
| "step ar s (SetIsRealTime rt now) =
     (if mounted s \<and> rt \<noteq> isRealTime s
      then s\<lparr> isRealTime := rt, interval := (if rt then Some (now + 5000) else None) \<rparr> else s)"
| "step ar s Unmount = s\<lparr> interval := None, mounted := False \<rparr>"

fun run :: "arith \<Rightarrow> dashboard \<Rightarrow> event list \<Rightarrow> dashboard" where
  "run ar s [] = s"
| "run ar s (e # es) = run ar (step ar s e) es"

section \<open>Vital kinds and their constants\<close>

datatype vital_kind =
  HeartRate | Systolic | Diastolic | Temperature | OxygenSaturation | RespirationRate

fun series :: "vital_kind \<Rightarrow> vitals \<Rightarrow> sample list" where
  "series HeartRate v = heartRate v"
| "series Systolic v = bloodPressureSystolic v"
| "series Diastolic v = bloodPressureDiastolic v"
| "series Temperature v = temperature v"
| "series OxygenSaturation v = oxygenSaturation v"
| "series RespirationRate v = respirationRate v"

fun point_field :: "vital_kind \<Rightarrow> point \<Rightarrow> real" where
  "point_field HeartRate d = d_heartRate d"
| "point_field Systolic d = d_bloodPressureSystolic d"
| "point_field Diastolic d = d_bloodPressureDiastolic d"
| "point_field Temperature d = d_temperature d"
| "point_field OxygenSaturation d = d_oxygenSaturation d"
| "point_field RespirationRate d = d_respirationRate d"

text \<open>
  The constants of the specification's formula, for each kind: the summand
  (\<open>baseline\<close>), the factor of \<open>Math.random()\<close> (\<open>rand_range\<close>), the factor of the
  sine (\<open>amplitude\<close>) and the divisor of the index inside the sine (\<open>period\<close>).
\<close>

fun baseline :: "vital_kind \<Rightarrow> real" where
  "baseline HeartRate = 70"
| "baseline Systolic = 110"
| "baseline Diastolic = 70"
| "baseline Temperature = 986 / 10"
| "baseline OxygenSaturation = 95"
| "baseline RespirationRate = 16"

fun rand_range :: "vital_kind \<Rightarrow> real" where
  "rand_range HeartRate = 30"
| "rand_range Systolic = 20"
| "rand_range Diastolic = 15"
| "rand_range Temperature = 2"
| "rand_range OxygenSaturation = 5"
| "rand_range RespirationRate = 8"

fun amplitude :: "vital_kind \<Rightarrow> real" where
  "amplitude HeartRate = 10"
| "amplitude Systolic = 5"
| "amplitude Diastolic = 3"
| "amplitude Temperature = 5 / 10"
| "amplitude OxygenSaturation = 2"
| "amplitude RespirationRate = 2"

fun period :: "vital_kind \<Rightarrow> real" where
  "period HeartRate = 10"
| "period Systolic = 8"
| "period Diastolic = 8"
| "period Temperature = 15"
| "period OxygenSaturation = 12"
| "period RespirationRate = 7"

text \<open>The baseline as a Number: \<open>98.6\<close> is the one literal that is rounded.\<close>

definition baseline_num :: "arith \<Rightarrow> vital_kind \<Rightarrow> real" where
  "baseline_num ar k = (if k = Temperature then num_lit ar (baseline k) else baseline k)"

text \<open>
  The random summand of a kind for the draw \<open>r\<close>, an integer
  \<open>Math.floor(r * range)\<close>, and for the temperature the centred \<open>(r - 0.5) * range\<close>.
\<close>

definition uniform_random :: "arith \<Rightarrow> vital_kind \<Rightarrow> real \<Rightarrow> real" where
  "uniform_random ar k r =
     (if k = Temperature then num_mul ar (num_sub ar r (5 / 10)) (rand_range k)
      else Math_floor (num_mul ar r (rand_range k)))"

text \<open>
  The formula of the specification, \<open>baseline + uniform_random(range) + amplitude *
  sin(index / period)\<close>, in Number arithmetic, for the draw \<open>r\<close> and the index \<open>i\<close>;
  and the formula without its sine term.
\<close>

definition spec_value :: "arith \<Rightarrow> vital_kind \<Rightarrow> real \<Rightarrow> int \<Rightarrow> real" where
  "spec_value ar k r i =
     num_add ar (num_add ar (baseline_num ar k) (uniform_random ar k r))
       (num_mul ar (amplitude k) (num_sin ar (num_div ar (of_int i) (period k))))"

definition spec_tick_value :: "arith \<Rightarrow> vital_kind \<Rightarrow> real \<Rightarrow> real" where
  "spec_tick_value ar k r = num_add ar (baseline_num ar k) (uniform_random ar k r)"

text \<open>The position of a kind among the six draws of one generated object.\<close>

fun draw_offset :: "vital_kind \<Rightarrow> nat" where
  "draw_offset HeartRate = 0"
| "draw_offset Systolic = 1"
| "draw_offset Diastolic = 2"
| "draw_offset Temperature = 3"
| "draw_offset OxygenSaturation = 4"
| "draw_offset RespirationRate = 5"

subsection \<open>Assumptions on the arithmetic and the draws\<close>

text \<open>Arithmetic without rounding, and with the real sine.\<close>

definition exact_arith :: arith where
  "exact_arith =
     \<lparr> num_lit = (\<lambda>x. x), num_add = (\<lambda>a b. a + b), num_sub = (\<lambda>a b. a - b),
       num_mul = (\<lambda>a b. a * b), num_div = (\<lambda>a b. a / b), num_sin = sin \<rparr>"

text \<open>
  Arithmetic that rounds every product to the nearest multiple of 2 to the power -48, as
  doubles do between 16 and 32, and is exact otherwise.
\<close>

definition grid_arith :: arith where
  "grid_arith =
     \<lparr> num_lit = (\<lambda>x. x), num_add = (\<lambda>a b. a + b), num_sub = (\<lambda>a b. a - b),
       num_mul = (\<lambda>a b. of_int (round (a * b * 2 ^ 48)) / 2 ^ 48),
       num_div = (\<lambda>a b. a / b), num_sin = sin \<rparr>"

text \<open>Addition and multiplication do not depend on the order of their operands.\<close>

definition commutative_arith :: "arith \<Rightarrow> bool" where
  "commutative_arith ar =
     (\<forall>a b. num_add ar a b = num_add ar b a \<and> num_mul ar a b = num_mul ar b a)"

text \<open>
  The rounding error of a sum, a difference or a product of operands up to 1000 is at most
  1/100 (that of doubles is far smaller there), the sine stays in \<open>[-1, 1]\<close>, and
  the Number of the literal \<open>98.6\<close> is within 1/100 of it.
\<close>

definition accurate :: "arith \<Rightarrow> bool" where
  "accurate ar =
     ((\<forall>a b. \<bar>a\<bar> \<le> 1000 \<and> \<bar>b\<bar> \<le> 1000 \<longrightarrow>
         \<bar>num_add ar a b - (a + b)\<bar> \<le> 1 / 100 \<and>
         \<bar>num_sub ar a b - (a - b)\<bar> \<le> 1 / 100 \<and>
         \<bar>num_mul ar a b - a * b\<bar> \<le> 1 / 100) \<and>
      (\<forall>x. \<bar>num_sin ar x\<bar> \<le> 1) \<and>
      \<bar>num_lit ar (986 / 10) - 986 / 10\<bar> \<le> 1 / 100)"

text \<open>
  Every draw lies in \<open>[0, 1)\<close>, as the library promises, and its product with each of
  the five integer ranges is a Number from 0 up to, but not reaching, the range (the
  product of a double below 1 with such a constant rounds to a double below the constant).
\<close>

definition unit_draws :: "arith \<Rightarrow> rng \<Rightarrow> bool" where
  "unit_draws ar rs =
     (\<forall>n. 0 \<le> rs n \<and> rs n < 1 \<and>
        (\<forall>c \<in> {5, 8, 15, 20, 30}. 0 \<le> num_mul ar (rs n) c \<and> num_mul ar (rs n) c < c))"

section \<open>Doctor dashboard: alerts and patient search\<close>

datatype alert_type = critical | warning

record alert =
  alert_id :: string
  patientId :: string
  patientName :: string
  alert_type :: alert_type
  title :: string
  description :: string
  timestamp :: int
  acknowledged :: bool
  vital :: string
  alert_value :: int
  recommendation :: string

text \<open>\<open>mockAlerts\<close>, for the value \<open>now\<close> of \<open>Date.now()\<close> when the module is loaded.\<close>

definition mockAlerts :: "int \<Rightarrow> alert list" where
  "mockAlerts now =
     [ \<lparr> alert_id = ''alert-001'', patientId = ''003'', patientName = ''Emily Rodriguez'',
         alert_type = critical, title = ''Critical Heart Rate'',
         description = ''Heart rate has exceeded 120 bpm for 10 minutes'',
         timestamp = now - 5 * 60000, acknowledged = False, vital = ''Heart Rate'',
         alert_value = 125,
         recommendation = ''Immediate medical attention required. Consider cardiac monitoring.'' \<rparr>,
       \<lparr> alert_id = ''alert-002'', patientId = ''002'', patientName = ''Michael Chen'',
         alert_type = warning, title = ''Elevated Blood Pressure'',
         description = ''Blood pressure readings consistently above normal range'',
         timestamp = now - 15 * 60000, acknowledged = False, vital = ''Blood Pressure'',
         alert_value = 145,
         recommendation = ''Monitor closely and consider medication adjustment.'' \<rparr>,
       \<lparr> alert_id = ''alert-003'', patientId = ''003'', patientName = ''Emily Rodriguez'',
         alert_type = warning, title = ''Low Oxygen Saturation'',
         description = ''SpO2 below 90% threshold'',
         timestamp = now - 8 * 60000, acknowledged = False, vital = ''Oxygen Saturation'',
         alert_value = 88,
         recommendation = ''Check airway, consider supplemental oxygen.'' \<rparr> ]"

text \<open>The updaters that the two handlers pass to \<open>setAlerts\<close>.\<close>

definition handleAcknowledgeAlert :: "string \<Rightarrow> alert list \<Rightarrow> alert list" where
  "handleAcknowledgeAlert alertId prev =
     map (\<lambda>alert. if alert_id alert = alertId then alert\<lparr> acknowledged := True \<rparr> else alert) prev"

definition handleDismissAlert :: "string \<Rightarrow> alert list \<Rightarrow> alert list" where
  "handleDismissAlert alertId prev = filter (\<lambda>alert. alert_id alert \<noteq> alertId) prev"

datatype condition = stable | warning_condition | critical_condition

record patient_vitals =
  pv_heartRate :: int
  bloodPressure :: string
  pv_temperature :: real
  oxygenSat :: int

text \<open>A patient; \<open>room\<close> is optional (the search reads it with \<open>?.\<close>).\<close>

record patient =
  patient_id :: string
  name :: string
  age :: nat
  gender :: string
  room :: "string option"
  condition :: condition
  lastUpdate :: string
  vitals :: patient_vitals

definition mockPatients :: "patient list" where
  "mockPatients =
     [ \<lparr> patient_id = ''001'', name = ''Sarah Johnson'', age = 45, gender = ''Female'',
         room = Some ''301A'', condition = stable, lastUpdate = ''2 min ago'',
         vitals = \<lparr> pv_heartRate = 72, bloodPressure = ''120/80'',
                    pv_temperature = 986 / 10, oxygenSat = 98 \<rparr> \<rparr>,
       \<lparr> patient_id = ''002'', name = ''Michael Chen'', age = 62, gender = ''Male'',
         room = Some ''302B'', condition = warning_condition, lastUpdate = ''1 min ago'',
         vitals = \<lparr> pv_heartRate = 105, bloodPressure = ''145/95'',
                    pv_temperature = 992 / 10, oxygenSat = 94 \<rparr> \<rparr>,
       \<lparr> patient_id = ''003'', name = ''Emily Rodriguez'', age = 38, gender = ''Female'',
         room = Some ''303A'', condition = critical_condition, lastUpdate = ''30 sec ago'',
         vitals = \<lparr> pv_heartRate = 125, bloodPressure = ''160/110'',
                    pv_temperature = 1012 / 10, oxygenSat = 88 \<rparr> \<rparr>,
       \<lparr> patient_id = ''004'', name = ''Robert Wilson'', age = 71, gender = ''Male'',
         room = Some ''304B'', condition = stable, lastUpdate = ''5 min ago'',
         vitals = \<lparr> pv_heartRate = 68, bloodPressure = ''118/75'',
                    pv_temperature = 984 / 10, oxygenSat = 97 \<rparr> \<rparr> ]"

text \<open>
  \<open>toLowerCase\<close> on strings of ASCII characters: the letters \<open>A\<close> to \<open>Z\<close> move
  to \<open>a\<close> to \<open>z\<close>, every other character stays.
\<close>

definition lower_char :: "char \<Rightarrow> char" where
  "lower_char c =
     (let n = (of_char c :: nat) in if 65 \<le> n \<and> n \<le> 90 then char_of (n + 32) else c)"

definition toLowerCase :: "string \<Rightarrow> string" where
  "toLowerCase s = map lower_char s"

text \<open>\<open>s.includes(q)\<close>: \<open>q\<close> starts at some position of \<open>s\<close>.\<close>

fun str_includes :: "string \<Rightarrow> string \<Rightarrow> bool" where
  "str_includes [] q = (q = [])"
| "str_includes (c # s) q = (take (length q) (c # s) = q \<or> str_includes s q)"

text \<open>
  The predicate of the search filter. With no room, \<open>room?.toLowerCase()\<close> is
  \<open>undefined\<close> and the disjunction is falsy unless the name matches.
\<close>

definition matches :: "string \<Rightarrow> patient \<Rightarrow> bool" where
  "matches searchQuery p =
     (str_includes (toLowerCase (name p)) (toLowerCase searchQuery) \<or>
      (case room p of
         None \<Rightarrow> False
       | Some r \<Rightarrow> str_includes (toLowerCase r) (toLowerCase searchQuery)))"

definition filterPatients :: "patient list \<Rightarrow> string \<Rightarrow> patient list" where
  "filterPatients ps searchQuery = filter (matches searchQuery) ps"

definition filteredPatients :: "string \<Rightarrow> patient list" where
  "filteredPatients searchQuery = filterPatients mockPatients searchQuery"

text \<open>
  Containment up to case, in the words of the specification: some contiguous part of
  \<open>s\<close> has the length of \<open>q\<close> and agrees with it character by character once
  case is ignored.
\<close>

definition same_ignoring_case :: "char \<Rightarrow> char \<Rightarrow> bool" where
  "same_ignoring_case a b = (lower_char a = lower_char b)"

definition contains_ci :: "string \<Rightarrow> string \<Rightarrow> bool" where
  "contains_ci s q =
     (\<exists>i \<le> length s. list_all2 same_ignoring_case (take (length q) (drop i s)) q)"

section \<open>Derived notions used in the statements\<close>

text \<open>The series of kind \<open>k\<close> that a bulk generation for \<open>h\<close> hours puts into the state.\<close>

definition bulk_series :: "arith \<Rightarrow> int \<Rightarrow> rng \<Rightarrow> int \<Rightarrow> vital_kind \<Rightarrow> sample list" where
  "bulk_series ar now rs h k = series k (vitals_of_data (generateMockData ar now rs h))"

text \<open>The interval that the specification gives the values of a kind.\<close>

definition within_bounds :: "vital_kind \<Rightarrow> real \<Rightarrow> bool" where
  "within_bounds k v =
     (baseline k - rand_range k \<le> v \<and> v \<le> baseline k + rand_range k + amplitude k)"

text \<open>The draws that an event consumes are as \<open>unit_draws\<close> says.\<close>

fun unit_event :: "arith \<Rightarrow> event \<Rightarrow> bool" where
  "unit_event ar (SetTimeRange tr now rs) = unit_draws ar rs"
| "unit_event ar (Elapse rs) = unit_draws ar rs"
| "unit_event ar (SetIsRealTime rt now) = True"
| "unit_event ar Unmount = True"

text \<open>The sample that a tick at the time \<open>t\<close> with the draws \<open>r\<close> makes for the kind \<open>k\<close>.\<close>

definition tick_sample :: "arith \<Rightarrow> vital_kind \<Rightarrow> int \<Rightarrow> rng \<Rightarrow> sample" where
  "tick_sample ar k t r = \<lparr> time = t, val = point_field k (newPoint ar t r) \<rparr>"

text \<open>
  The samples that successive ticks make for the kind \<open>k\<close>, the first at the time \<open>due\<close>,
  each with its own draws.
\<close>

fun tick_samples :: "arith \<Rightarrow> vital_kind \<Rightarrow> int \<Rightarrow> rng list \<Rightarrow> sample list" where
  "tick_samples ar k due [] = []"
| "tick_samples ar k due (r # rss) = tick_sample ar k due r # tick_samples ar k (due + 5000) rss"

text \<open>The windows that the four selections request, in hours, in the words of the glossary.\<close>

fun window_hours :: "timeRange \<Rightarrow> int" where
  "window_hours T1h = 1"
| "window_hours T6h = 6"
| "window_hours T24h = 24"
| "window_hours T7d = 7 * 24"

text \<open>The double nearest to 0.7, a value that \<open>Math.random()\<close> can return.\<close>

definition draw_07 :: real where
  "draw_07 = 3152519739159347 / 4503599627370496"

section \<open>Properties of the mock signal generator\<close>

text \<open>The loop in closed form: one object per counter value \<open>i, i - 1, ..., 0\<close>.\<close>

lemma gen_loop_closed:
  "gen_loop ar now rs i n data =
     data @ map (\<lambda>j. mock_point ar now rs (n + 6 * j) (i - int j)) [0..<nat (i + 1)]"
proof (induction ar now rs i n data rule: gen_loop.induct)
  case (1 ar now rs i n data)
  show ?case
  proof (cases "i \<ge> 0")
    case True
    have upt: "[0..<nat (i + 1)] = 0 # map Suc [0..<nat i]"
      using True by (simp add: nat_add_distrib upt_conv_Cons map_Suc_upt del: upt_Suc)
    have "gen_loop ar now rs i n data
            = gen_loop ar now rs (i - 1) (n + 6) (data @ [mock_point ar now rs n i])"
      using True by (subst gen_loop.simps) simp
    also have "\<dots> = (data @ [mock_point ar now rs n i]) @
        map (\<lambda>j. mock_point ar now rs (n + 6 + 6 * j) (i - 1 - int j)) [0..<nat i]"
      using 1 True by simp
    also have "\<dots> =
        data @ map (\<lambda>j. mock_point ar now rs (n + 6 * j) (i - int j)) [0..<nat (i + 1)]"
      unfolding upt by (simp add: comp_def algebra_simps)
    finally show ?thesis .
  next
    case False
    then show ?thesis by (subst gen_loop.simps) simp
  qed
qed

lemma generateMockData_closed:
  "generateMockData ar now rs h =
     map (\<lambda>j. mock_point ar now rs (6 * j) (h * 12 - int j)) [0..<nat (h * 12 + 1)]"
  by (simp add: generateMockData_def gen_loop_closed)

lemma series_vitals_of_data:
  "series k (vitals_of_data data) = map (\<lambda>d. \<lparr> time = d_time d, val = point_field k d \<rparr>) data"
  by (cases k) (simp_all add: vitals_of_data_def)

lemma bulk_series_closed:
  "bulk_series ar now rs h k =
     map (\<lambda>j. \<lparr> time = now - (h * 12 - int j) * 300000,
                val = point_field k (mock_point ar now rs (6 * j) (h * 12 - int j)) \<rparr>)
       [0..<nat (h * 12 + 1)]"
  by (simp add: bulk_series_def series_vitals_of_data generateMockData_closed comp_def mock_point_def)

lemma bulk_series_length: "length (bulk_series ar now rs h k) = nat (h * 12 + 1)"
  by (simp add: bulk_series_closed)

lemma bulk_series_time:
  "j < nat (h * 12 + 1) \<Longrightarrow>
     time (bulk_series ar now rs h k ! j) = now - (h * 12 - int j) * 300000"
  by (simp add: bulk_series_closed)

text \<open>
  Claim C2. For every window length \<open>h \<ge> 0\<close> (whole hours), the generator gives each of
  the six kinds a series of exactly \<open>h * 12 + 1\<close> samples; consecutive time stamps differ
  by exactly five minutes (300000 ms), so they increase strictly; the last sample bears
  the current time. One hour gives 13 samples, 24 hours give 289, and zero hours give the
  single sample of the current time. This holds whatever the arithmetic of the values.
\<close>

theorem generated_series_shape:
  assumes "0 \<le> h"
  shows "length (bulk_series ar now rs h k) = nat (h * 12 + 1) \<and>
         (\<forall>j. Suc j < length (bulk_series ar now rs h k) \<longrightarrow>
            time (bulk_series ar now rs h k ! Suc j) =
              time (bulk_series ar now rs h k ! j) + 5 * 60000) \<and>
         sorted_wrt (<) (map time (bulk_series ar now rs h k)) \<and>
         time (last (bulk_series ar now rs h k)) = now \<and>
         length (bulk_series ar now rs 1 k) = 13 \<and>
         length (bulk_series ar now rs 24 k) = 289 \<and>
         map time (bulk_series ar now rs 0 k) = [now]"
proof -
  let ?xs = "bulk_series ar now rs h k"
  have len: "length ?xs = nat (h * 12 + 1)"
    by (rule bulk_series_length)
  have spaced: "\<forall>j. Suc j < length ?xs \<longrightarrow> time (?xs ! Suc j) = time (?xs ! j) + 5 * 60000"
    by (simp add: len bulk_series_time algebra_simps)
  have incr: "sorted_wrt (<) (map time ?xs)"
    by (simp add: sorted_wrt_iff_nth_less len bulk_series_time)
  have "?xs \<noteq> []"
    using assms len by auto
  then have "last ?xs = ?xs ! nat (h * 12)"
    using assms by (simp add: last_conv_nth len nat_add_distrib)
  then have lst: "time (last ?xs) = now"
    using assms by (simp add: bulk_series_time)
  have ex0: "map time (bulk_series ar now rs 0 k) = [now]"
    by (simp add: bulk_series_closed)
  show ?thesis
    using len spaced incr lst ex0 by (simp add: bulk_series_length)
qed

theorem generated_series_shape_witness:
  "(0::int) \<le> 6 \<and> length (bulk_series exact_arith 0 (\<lambda>n. 0) 6 Temperature) = 73 \<and>
   time (last (bulk_series exact_arith 0 (\<lambda>n. 0) 6 Temperature)) = 0"
  using generated_series_shape [of 6 exact_arith 0 "\<lambda>n. 0" Temperature] by simp

section \<open>Values of the generated samples\<close>

lemma bulk_series_nth:
  "j < nat (h * 12 + 1) \<Longrightarrow>
     bulk_series ar now rs h k ! j =
       \<lparr> time = now - (h * 12 - int j) * 300000,
         val = point_field k (mock_point ar now rs (6 * j) (h * 12 - int j)) \<rparr>"
  by (simp add: bulk_series_closed)

lemma mock_point_field:
  assumes "commutative_arith ar"
  shows "point_field k (mock_point ar now rs n i) = spec_value ar k (rs (n + draw_offset k)) i"
proof -
  have a: "num_add ar x y = num_add ar y x" and m: "num_mul ar x y = num_mul ar y x" for x y
    using assms by (simp_all add: commutative_arith_def)
  have a': "num_add ar (Math_floor x) y = num_add ar y (Math_floor x)" for x y
    by (rule a)
  have m': "num_mul ar (num_sin ar x) y = num_mul ar y (num_sin ar x)" for x y
    by (rule m)
  show ?thesis
    by (cases k)
      (simp_all add: mock_point_def spec_value_def uniform_random_def baseline_num_def a' m')
qed

lemma newPoint_field:
  assumes "commutative_arith ar"
  shows "point_field k (newPoint ar now rs) = spec_tick_value ar k (rs (draw_offset k))"
proof -
  have a': "num_add ar (Math_floor x) y = num_add ar y (Math_floor x)" for x y
    using assms by (simp add: commutative_arith_def)
  show ?thesis
    by (cases k)
      (simp_all add: newPoint_def spec_tick_value_def uniform_random_def baseline_num_def a')
qed

lemma accurate_add:
  "accurate ar \<Longrightarrow> \<bar>a\<bar> \<le> 1000 \<Longrightarrow> \<bar>b\<bar> \<le> 1000 \<Longrightarrow> \<bar>num_add ar a b - (a + b)\<bar> \<le> 1 / 100"
  by (simp add: accurate_def)

lemma accurate_sub:
  "accurate ar \<Longrightarrow> \<bar>a\<bar> \<le> 1000 \<Longrightarrow> \<bar>b\<bar> \<le> 1000 \<Longrightarrow> \<bar>num_sub ar a b - (a - b)\<bar> \<le> 1 / 100"
  by (simp add: accurate_def)

lemma accurate_mul:
  "accurate ar \<Longrightarrow> \<bar>a\<bar> \<le> 1000 \<Longrightarrow> \<bar>b\<bar> \<le> 1000 \<Longrightarrow> \<bar>num_mul ar a b - a * b\<bar> \<le> 1 / 100"
  by (simp add: accurate_def)

lemma accurate_sin: "accurate ar \<Longrightarrow> \<bar>num_sin ar x\<bar> \<le> 1"
  by (simp add: accurate_def)

lemma accurate_lit: "accurate ar \<Longrightarrow> \<bar>num_lit ar (986 / 10) - 986 / 10\<bar> \<le> 1 / 100"
  by (simp add: accurate_def)

lemma sine_term_bound:
  assumes "accurate ar" "0 \<le> amp" "amp \<le> 10"
  shows "\<bar>num_mul ar (num_sin ar x) amp\<bar> \<le> amp + 1 / 100"
proof -
  have s: "\<bar>num_sin ar x\<bar> \<le> 1"
    using assms(1) by (rule accurate_sin)
  have "\<bar>num_sin ar x * amp\<bar> = \<bar>num_sin ar x\<bar> * amp"
    using assms(2) by (simp add: abs_mult)
  also have "\<dots> \<le> 1 * amp"
    using s assms(2) by (rule mult_right_mono)
  finally have p: "\<bar>num_sin ar x * amp\<bar> \<le> amp"
    by simp
  have "\<bar>num_sin ar x\<bar> \<le> 1000" "\<bar>amp\<bar> \<le> 1000"
    using s assms by linarith+
  with assms(1) have "\<bar>num_mul ar (num_sin ar x) amp - num_sin ar x * amp\<bar> \<le> 1 / 100"
    by (rule accurate_mul)
  with p show ?thesis by linarith
qed

lemma floor_draw:
  assumes "unit_draws ar rs" "c \<in> {5, 8, 15, 20, 30}"
  shows "0 \<le> Math_floor (num_mul ar (rs n) c) \<and> Math_floor (num_mul ar (rs n) c) \<le> c - 1"
proof -
  have x: "0 \<le> num_mul ar (rs n) c" "num_mul ar (rs n) c < c"
    using assms by (auto simp: unit_draws_def)
  obtain z :: int where z: "c = of_int z"
    using assms(2) by (auto intro: that [of 5] that [of 8] that [of 15] that [of 20] that [of 30])
  have "\<lfloor>num_mul ar (rs n) c\<rfloor> < z"
    using x(2) by (simp add: z floor_less_iff)
  then have "\<lfloor>num_mul ar (rs n) c\<rfloor> \<le> z - 1"
    by simp
  then have "(of_int \<lfloor>num_mul ar (rs n) c\<rfloor> :: real) \<le> of_int (z - 1)"
    by (simp only: of_int_le_iff)
  moreover have "0 \<le> \<lfloor>num_mul ar (rs n) c\<rfloor>"
    using x(1) by simp
  ultimately show ?thesis
    by (simp add: Math_floor_def z)
qed

lemma base_sum_bound:
  assumes "accurate ar" "0 \<le> F" "F \<le> c - 1" "0 \<le> b" "b \<le> 200" "c \<le> 100"
  shows "b - 1 / 100 \<le> num_add ar F b \<and> num_add ar F b \<le> b + c - 1 + 1 / 100"
proof -
  have "\<bar>F\<bar> \<le> 1000" "\<bar>b\<bar> \<le> 1000"
    using assms by linarith+
  with assms(1) have "\<bar>num_add ar F b - (F + b)\<bar> \<le> 1 / 100"
    by (rule accurate_add)
  then show ?thesis
    using assms by linarith
qed

lemma integer_kind_bound:
  assumes "accurate ar" "0 \<le> F" "F \<le> c - 1" "0 \<le> b" "b \<le> 200" "c \<le> 100"
    and "0 \<le> amp" "amp \<le> 10"
  shows "b - amp - 3 / 100 \<le> num_add ar (num_add ar F b) (num_mul ar (num_sin ar x) amp) \<and>
         num_add ar (num_add ar F b) (num_mul ar (num_sin ar x) amp) \<le> b + c - 1 + amp + 3 / 100"
proof -
  let ?A = "num_add ar F b" and ?M = "num_mul ar (num_sin ar x) amp"
  have A: "b - 1 / 100 \<le> ?A \<and> ?A \<le> b + c - 1 + 1 / 100"
    using assms(1-6) by (rule base_sum_bound)
  have M: "\<bar>?M\<bar> \<le> amp + 1 / 100"
    using assms(1,7,8) by (rule sine_term_bound)
  have A': "\<bar>?A\<bar> \<le> 1000" and M': "\<bar>?M\<bar> \<le> 1000"
    using assms A M by linarith+
  have "\<bar>num_add ar ?A ?M - (?A + ?M)\<bar> \<le> 1 / 100"
    using assms(1) A' M' by (rule accurate_add)
  then show ?thesis
    using A M by linarith
qed

lemma temperature_sum_bound:
  assumes "accurate ar" "0 \<le> r" "r < 1"
  shows "9755 / 100 \<le> num_add ar (num_lit ar (986 / 10)) (num_mul ar (num_sub ar r (5 / 10)) 2) \<and>
         num_add ar (num_lit ar (986 / 10)) (num_mul ar (num_sub ar r (5 / 10)) 2) \<le> 9965 / 100"
proof -
  let ?L = "num_lit ar (986 / 10)" and ?D = "num_sub ar r (5 / 10)"
  let ?P = "num_mul ar ?D 2"
  have L: "\<bar>?L - 986 / 10\<bar> \<le> 1 / 100"
    using assms(1) by (rule accurate_lit)
  have "\<bar>r\<bar> \<le> 1000" "\<bar>5 / 10 :: real\<bar> \<le> 1000"
    using assms by simp_all
  with assms(1) have D: "\<bar>?D - (r - 5 / 10)\<bar> \<le> 1 / 100"
    by (rule accurate_sub)
  have D': "\<bar>?D\<bar> \<le> 1000"
    using assms D by linarith
  have P: "\<bar>?P - ?D * 2\<bar> \<le> 1 / 100"
    using assms(1) D' by (intro accurate_mul) simp_all
  have L': "\<bar>?L\<bar> \<le> 1000" and P': "\<bar>?P\<bar> \<le> 1000"
    using assms L D P by linarith+
  have "\<bar>num_add ar ?L ?P - (?L + ?P)\<bar> \<le> 1 / 100"
    using assms(1) L' P' by (rule accurate_add)
  then show ?thesis
    using assms L D P by linarith
qed

lemma temperature_bound:
  assumes "accurate ar" "0 \<le> r" "r < 1"
  shows "9703 / 100 \<le>
           num_add ar (num_add ar (num_lit ar (986 / 10)) (num_mul ar (num_sub ar r (5 / 10)) 2))
             (num_mul ar (num_sin ar x) (5 / 10)) \<and>
         num_add ar (num_add ar (num_lit ar (986 / 10)) (num_mul ar (num_sub ar r (5 / 10)) 2))
             (num_mul ar (num_sin ar x) (5 / 10)) \<le> 10017 / 100"
proof -
  let ?Q = "num_add ar (num_lit ar (986 / 10)) (num_mul ar (num_sub ar r (5 / 10)) 2)"
  let ?M = "num_mul ar (num_sin ar x) (5 / 10)"
  have Q: "9755 / 100 \<le> ?Q \<and> ?Q \<le> 9965 / 100"
    using assms by (rule temperature_sum_bound)
  have M: "\<bar>?M\<bar> \<le> 5 / 10 + 1 / 100"
    using assms(1) by (rule sine_term_bound) simp_all
  have Q': "\<bar>?Q\<bar> \<le> 1000" and M': "\<bar>?M\<bar> \<le> 1000"
    using Q M by linarith+
  have "\<bar>num_add ar ?Q ?M - (?Q + ?M)\<bar> \<le> 1 / 100"
    using assms(1) Q' M' by (rule accurate_add)
  then show ?thesis
    using Q M by linarith
qed

lemma unit_draws_range: "unit_draws ar rs \<Longrightarrow> 0 \<le> rs n \<and> rs n < 1"
  by (simp add: unit_draws_def)

lemma mock_value_within:
  assumes "accurate ar" "unit_draws ar rs"
  shows "within_bounds k (point_field k (mock_point ar now rs n i))"
proof (cases k)
  case HeartRate
  from integer_kind_bound [OF assms(1), of "Math_floor (num_mul ar (rs n) 30)" 30 70 10 "num_div ar (of_int i) 10"]
    floor_draw [OF assms(2), of 30 n]
  show ?thesis by (simp add: HeartRate within_bounds_def mock_point_def)
next
  case Systolic
  from integer_kind_bound [OF assms(1), of "Math_floor (num_mul ar (rs (n + 1)) 20)" 20 110 5 "num_div ar (of_int i) 8"]
    floor_draw [OF assms(2), of 20 "n + 1"]
  show ?thesis by (simp add: Systolic within_bounds_def mock_point_def)
next
  case Diastolic
  from integer_kind_bound [OF assms(1), of "Math_floor (num_mul ar (rs (n + 2)) 15)" 15 70 3 "num_div ar (of_int i) 8"]
    floor_draw [OF assms(2), of 15 "n + 2"]
  show ?thesis by (simp add: Diastolic within_bounds_def mock_point_def)
next
  case Temperature
  from temperature_bound [OF assms(1), of "rs (n + 3)" "num_div ar (of_int i) 15"] unit_draws_range [OF assms(2), of "n + 3"]
  show ?thesis by (simp add: Temperature within_bounds_def mock_point_def)
next
  case OxygenSaturation
  from integer_kind_bound [OF assms(1), of "Math_floor (num_mul ar (rs (n + 4)) 5)" 5 95 2 "num_div ar (of_int i) 12"]
    floor_draw [OF assms(2), of 5 "n + 4"]
  show ?thesis by (simp add: OxygenSaturation within_bounds_def mock_point_def)
next
  case RespirationRate
  from integer_kind_bound [OF assms(1), of "Math_floor (num_mul ar (rs (n + 5)) 8)" 8 16 2 "num_div ar (of_int i) 7"]
    floor_draw [OF assms(2), of 8 "n + 5"]
  show ?thesis by (simp add: RespirationRate within_bounds_def mock_point_def)
qed

lemma newPoint_value_within:
  assumes "accurate ar" "unit_draws ar rs"
  shows "within_bounds k (point_field k (newPoint ar now rs))"
proof (cases k)
  case HeartRate
  from base_sum_bound [OF assms(1), of "Math_floor (num_mul ar (rs 0) 30)" 30 70]
    floor_draw [OF assms(2), of 30 0]
  show ?thesis by (simp add: HeartRate within_bounds_def newPoint_def)
next
  case Systolic
  from base_sum_bound [OF assms(1), of "Math_floor (num_mul ar (rs 1) 20)" 20 110]
    floor_draw [OF assms(2), of 20 1]
  show ?thesis by (simp add: Systolic within_bounds_def newPoint_def)
next
  case Diastolic
  from base_sum_bound [OF assms(1), of "Math_floor (num_mul ar (rs 2) 15)" 15 70]
    floor_draw [OF assms(2), of 15 2]
  show ?thesis by (simp add: Diastolic within_bounds_def newPoint_def)
next
  case Temperature
  from temperature_sum_bound [OF assms(1), of "rs 3"] unit_draws_range [OF assms(2), of 3]
  show ?thesis by (simp add: Temperature within_bounds_def newPoint_def)
next
  case OxygenSaturation
  from base_sum_bound [OF assms(1), of "Math_floor (num_mul ar (rs 4) 5)" 5 95]
    floor_draw [OF assms(2), of 5 4]
  show ?thesis by (simp add: OxygenSaturation within_bounds_def newPoint_def)
next
  case RespirationRate
  from base_sum_bound [OF assms(1), of "Math_floor (num_mul ar (rs 5) 8)" 8 16]
    floor_draw [OF assms(2), of 8 5]
  show ?thesis by (simp add: RespirationRate within_bounds_def newPoint_def)
qed

lemma series_tick:
  "series k (tick ar now rs prev) = slice_last 50 (series k prev) @ [tick_sample ar k now rs]"
  by (cases k) (simp_all add: tick_def Let_def tick_sample_def)

lemma series_window_effect:
  "series k (window_effect ar now rs tr) = bulk_series ar now rs (hours_of tr) k"
  by (simp add: window_effect_def bulk_series_def)

lemma set_slice_last: "set (slice_last n xs) \<subseteq> set xs"
  by (simp add: slice_last_def set_drop_subset)

lemma length_slice_last: "length (slice_last n xs) = min (length xs) n"
  by (simp add: slice_last_def)

lemma bulk_series_within:
  assumes "accurate ar" "unit_draws ar rs" "s \<in> set (bulk_series ar now rs h k)"
  shows "within_bounds k (val s)"
proof -
  from assms(3) obtain j where j: "j < nat (h * 12 + 1)" and s: "s = bulk_series ar now rs h k ! j"
    by (auto simp: in_set_conv_nth bulk_series_length)
  show ?thesis
    using j s by (simp add: bulk_series_nth mock_value_within [OF assms(1,2)])
qed

lemma tick_within:
  assumes "accurate ar" "unit_draws ar rs"
    and "\<forall>s \<in> set (series k prev). within_bounds k (val s)"
    and "s \<in> set (series k (tick ar now rs prev))"
  shows "within_bounds k (val s)"
proof -
  from assms(4) consider "s \<in> set (slice_last 50 (series k prev))" | "s = tick_sample ar k now rs"
    by (auto simp: series_tick)
  then show ?thesis
  proof cases
    case 1
    then show ?thesis using assms(3) set_slice_last [of 50 "series k prev"] by auto
  next
    case 2
    then show ?thesis
      by (simp add: tick_sample_def newPoint_value_within [OF assms(1,2)])
  qed
qed

lemma step_within:
  assumes "accurate ar" "unit_event ar e"
    and "\<forall>s \<in> set (series k (vitalsData st)). within_bounds k (val s)"
  shows "\<forall>s \<in> set (series k (vitalsData (step ar st e))). within_bounds k (val s)"
proof (cases e)
  case (SetTimeRange tr now rs)
  then show ?thesis
    using assms by (auto simp: series_window_effect dest: bulk_series_within)
next
  case (Elapse rs)
  then show ?thesis
    using assms by (auto split: option.splits dest: tick_within)
next
  case (SetIsRealTime rt now)
  then show ?thesis using assms by simp
next
  case Unmount
  then show ?thesis using assms by simp
qed

lemma run_within:
  assumes "accurate ar" "\<forall>e \<in> set es. unit_event ar e"
    and "\<forall>s \<in> set (series k (vitalsData st)). within_bounds k (val s)"
  shows "\<forall>s \<in> set (series k (vitalsData (run ar st es))). within_bounds k (val s)"
  using assms(2,3)
proof (induction es arbitrary: st)
  case Nil
  then show ?case by simp
next
  case (Cons e es)
  have "\<forall>s \<in> set (series k (vitalsData (step ar st e))). within_bounds k (val s)"
    using assms(1) Cons.prems by (intro step_within) simp_all
  then show ?case using Cons by simp
qed

lemma grid_arith_accurate: "accurate grid_arith"
proof -
  have m: "\<bar>of_int (round (a * b * 2 ^ 48)) / 2 ^ 48 - a * b\<bar> \<le> 1 / 100" for a b :: real
  proof -
    have "\<bar>of_int (round (a * b * 2 ^ 48)) - a * b * 2 ^ 48\<bar> \<le> 1 / 2"
      by (rule of_int_round_abs_le)
    then have "\<bar>(of_int (round (a * b * 2 ^ 48)) - a * b * 2 ^ 48) / 2 ^ 48\<bar> \<le> (1 / 2) / 2 ^ 48"
      by (simp add: divide_le_cancel)
    then have "\<bar>of_int (round (a * b * 2 ^ 48)) / 2 ^ 48 - a * b\<bar> \<le> (1 / 2) / 2 ^ 48"
      by (simp add: diff_divide_distrib)
    also have "\<dots> \<le> (1 / 100 :: real)" by simp
    finally show ?thesis .
  qed
  show ?thesis
    using m by (simp add: accurate_def grid_arith_def)
qed

lemma grid_arith_commutative: "commutative_arith grid_arith"
  by (simp add: commutative_arith_def grid_arith_def mult.commute add.commute)

lemma grid_arith_draw_07: "unit_draws grid_arith (\<lambda>n. draw_07)"
  by (simp add: unit_draws_def grid_arith_def draw_07_def round_def)

text \<open>
  Claim C4. With arithmetic as accurate as \<open>accurate\<close> asks (doubles are far more) and
  with every draw of \<open>Math.random()\<close> in \<open>[0, 1)\<close>, every value that the generator
  produces for a kind lies between \<open>baseline - range\<close> and
  \<open>baseline + range + amplitude\<close> of that kind: in every bulk generation, and in every
  state that the component reaches from its mount by window changes and ticks. Every
  heart-rate value lies in \<open>[70 - 30, 70 + 30 + 10]\<close>. Here \<open>range\<close> is the factor of
  \<open>Math.random()\<close> in the source.
\<close>

theorem generated_values_within_bounds:
  assumes "accurate ar" "unit_draws ar rs" "\<forall>e \<in> set es. unit_event ar e"
  shows "(\<forall>h. \<forall>s \<in> set (bulk_series ar now rs h k). within_bounds k (val s)) \<and>
         (\<forall>s \<in> set (series k (vitalsData (run ar (mount ar now rs rt) es))).
            within_bounds k (val s)) \<and>
         (\<forall>s \<in> set (heartRate (vitalsData (run ar (mount ar now rs rt) es))).
            70 - 30 \<le> val s \<and> val s \<le> 70 + 30 + 10)"
proof -
  have bulk: "\<forall>h. \<forall>s \<in> set (bulk_series ar now rs h k). within_bounds k (val s)" for k
    using assms(1,2) bulk_series_within by blast
  have "\<forall>s \<in> set (series k (vitalsData (mount ar now rs rt))). within_bounds k (val s)" for k
    using bulk [of k] by (simp add: mount_def series_window_effect)
  then have reach:
    "\<forall>s \<in> set (series k (vitalsData (run ar (mount ar now rs rt) es))). within_bounds k (val s)"
    for k
    using assms(1,3) by (intro run_within) simp_all
  have "\<forall>s \<in> set (heartRate (vitalsData (run ar (mount ar now rs rt) es))).
            70 - 30 \<le> val s \<and> val s \<le> 70 + 30 + 10"
    using reach [of HeartRate] by (simp add: within_bounds_def)
  then show ?thesis using bulk reach by blast
qed

theorem generated_values_within_bounds_witness:
  "accurate grid_arith \<and> unit_draws grid_arith (\<lambda>n. draw_07) \<and>
   unit_event grid_arith (Elapse (\<lambda>n. draw_07)) \<and>
   last (series HeartRate
     (vitalsData (run grid_arith (mount grid_arith 0 (\<lambda>n. draw_07) True) [Elapse (\<lambda>n. draw_07)]))) =
     \<lparr> time = 5000, val = 91 \<rparr> \<and>
   within_bounds HeartRate 91"
proof -
  let ?rs = "\<lambda>n::nat. draw_07"
  let ?v = "vitalsData (run grid_arith (mount grid_arith 0 ?rs True) [Elapse ?rs])"
  have h1: "accurate grid_arith"
    by (rule grid_arith_accurate)
  have h2: "unit_draws grid_arith ?rs"
    by (rule grid_arith_draw_07)
  have h3: "\<forall>e \<in> set [Elapse ?rs]. unit_event grid_arith e"
    using h2 by simp
  have l: "last (series HeartRate ?v) = \<lparr> time = 5000, val = 91 \<rparr>"
    by (simp add: mount_def tick_def Let_def newPoint_def grid_arith_def draw_07_def round_def
        Math_floor_def)
  then have "\<lparr> time = 5000, val = 91 \<rparr> \<in> set (series HeartRate ?v)"
    by (simp add: mount_def tick_def Let_def)
  with generated_values_within_bounds [OF h1 h2 h3, of 0 HeartRate True]
  have "within_bounds HeartRate 91"
    by fastforce
  with h1 h2 l show ?thesis by simp
qed

section \<open>The bulk formula\<close>

text \<open>
  Claim C7. In a bulk generation for \<open>h\<close> hours, the object made at loop index \<open>i\<close>
  (\<open>0 \<le> i \<le> h * 12\<close>: the number of five-minute steps before the current time; it
  stands at position \<open>h * 12 - i\<close> of the series) has, for each kind, the value
  \<open>baseline + uniform_random(range) + amplitude * sin(index / period)\<close> with the constants of
  that kind, computed with the operations of Numbers (which commute). For the heart rate
  the constants are 70, 30, 10 and 10: the value is
  \<open>(floor(r * 30) + 70) + sin(i / 10) * 10\<close> in Number arithmetic, for the draw \<open>r\<close> of
  that object, where \<open>floor(r * 30)\<close>, the floor of the rounded product, is one of the
  integers 0 to 29. In arithmetic without rounding the formula is that of the reals.
\<close>

theorem bulk_value_formula:
  assumes "0 \<le> i" "i \<le> h * 12"
  shows "time (bulk_series ar now rs h k ! nat (h * 12 - i)) = now - i * 300000 \<and>
         val (bulk_series ar now rs h HeartRate ! nat (h * 12 - i)) =
           num_add ar (num_add ar (of_int \<lfloor>num_mul ar (rs (6 * nat (h * 12 - i))) 30\<rfloor>) 70)
             (num_mul ar (num_sin ar (num_div ar (of_int i) 10)) 10) \<and>
         (commutative_arith ar \<longrightarrow>
            val (bulk_series ar now rs h k ! nat (h * 12 - i)) =
              spec_value ar k (rs (6 * nat (h * 12 - i) + draw_offset k)) i) \<and>
         baseline HeartRate = 70 \<and> rand_range HeartRate = 30 \<and>
         amplitude HeartRate = 10 \<and> period HeartRate = 10 \<and>
         spec_value exact_arith k r i =
           baseline k +
           (if k = Temperature then (r - 5 / 10) * rand_range k else of_int \<lfloor>r * rand_range k\<rfloor>) +
           amplitude k * sin (of_int i / period k) \<and>
         (unit_draws ar rs \<longrightarrow>
            0 \<le> \<lfloor>num_mul ar (rs (6 * nat (h * 12 - i))) 30\<rfloor> \<and>
            \<lfloor>num_mul ar (rs (6 * nat (h * 12 - i))) 30\<rfloor> \<le> 29)"
proof -
  let ?j = "nat (h * 12 - i)"
  have j: "?j < nat (h * 12 + 1)" and ij: "h * 12 - int ?j = i"
    using assms by simp_all
  have nth: "bulk_series ar now rs h k ! ?j =
      \<lparr> time = now - i * 300000, val = point_field k (mock_point ar now rs (6 * ?j) i) \<rparr>" for k
    using bulk_series_nth [OF j, of ar now rs k] by (simp only: ij)
  have hr: "val (bulk_series ar now rs h HeartRate ! ?j) =
      num_add ar (num_add ar (of_int \<lfloor>num_mul ar (rs (6 * ?j)) 30\<rfloor>) 70)
        (num_mul ar (num_sin ar (num_div ar (of_int i) 10)) 10)"
    by (simp add: nth [of HeartRate] mock_point_def Math_floor_def)
  have sp: "val (bulk_series ar now rs h k ! ?j) = spec_value ar k (rs (6 * ?j + draw_offset k)) i"
    if "commutative_arith ar"
    by (simp add: nth [of k] mock_point_field [OF that])
  have ex: "spec_value exact_arith k r i =
      baseline k +
      (if k = Temperature then (r - 5 / 10) * rand_range k else of_int \<lfloor>r * rand_range k\<rfloor>) +
      amplitude k * sin (of_int i / period k)"
    by (simp add: spec_value_def exact_arith_def uniform_random_def baseline_num_def Math_floor_def)
  have fl: "0 \<le> \<lfloor>num_mul ar (rs (6 * ?j)) 30\<rfloor> \<and> \<lfloor>num_mul ar (rs (6 * ?j)) 30\<rfloor> \<le> 29"
    if "unit_draws ar rs"
  proof -
    from floor_draw [OF that, of 30 "6 * ?j"]
    have "0 \<le> (of_int \<lfloor>num_mul ar (rs (6 * ?j)) 30\<rfloor> :: real)"
      "(of_int \<lfloor>num_mul ar (rs (6 * ?j)) 30\<rfloor> :: real) \<le> 29"
      by (simp_all add: Math_floor_def)
    then have "0 \<le> \<lfloor>num_mul ar (rs (6 * ?j)) 30\<rfloor>" "\<lfloor>num_mul ar (rs (6 * ?j)) 30\<rfloor> \<le> 29"
      by linarith+
    then show ?thesis by simp
  qed
  have tm: "time (bulk_series ar now rs h k ! ?j) = now - i * 300000"
    by (simp add: nth [of k])
  show ?thesis
    using tm hr sp ex fl by simp
qed

theorem bulk_value_formula_witness:
  "(0::int) \<le> 0 \<and> (0::int) \<le> 1 * 12 \<and> commutative_arith grid_arith \<and>
   unit_draws grid_arith (\<lambda>n. draw_07) \<and>
   bulk_series grid_arith 0 (\<lambda>n. draw_07) 1 HeartRate ! 12 = \<lparr> time = 0, val = 91 \<rparr> \<and>
   spec_value grid_arith HeartRate draw_07 0 = 91"
proof -
  let ?x = "bulk_series grid_arith 0 (\<lambda>n. draw_07) 1 HeartRate ! 12"
  have c: "commutative_arith grid_arith"
    by (rule grid_arith_commutative)
  have u: "unit_draws grid_arith (\<lambda>n. draw_07)"
    by (rule grid_arith_draw_07)
  have v: "spec_value grid_arith HeartRate draw_07 0 = 91"
    by (simp add: spec_value_def uniform_random_def baseline_num_def grid_arith_def draw_07_def
        round_def Math_floor_def)
  have "?x = \<lparr> time = time ?x, val = val ?x \<rparr>"
    by simp
  then have "?x = \<lparr> time = 0, val = 91 \<rparr>"
    using bulk_value_formula [of 0 1 grid_arith 0 "\<lambda>n. draw_07" HeartRate 0] c v by simp
  then show ?thesis
    using c u v by simp
qed

section \<open>Ticks of the rolling window\<close>

lemma slice_last_append_one: "slice_last n xs @ [x] = slice_last (Suc n) (xs @ [x])"
  by (simp add: slice_last_def Suc_diff_le)

lemma slice_last_slice_last_append:
  assumes "m \<le> n + length ys"
  shows "slice_last m (slice_last n xs @ ys) = slice_last m (xs @ ys)"
proof (cases "length xs \<ge> n")
  case True
  then show ?thesis
    using assms by (simp add: slice_last_def add.commute)
next
  case False
  then show ?thesis by (simp add: slice_last_def)
qed

lemma slice_last_50: "slice_last 50 xs = drop (length xs - 50) xs"
  by (simp add: slice_last_def)

lemma length_tick_samples: "length (tick_samples ar k due rss) = length rss"
  by (induction rss arbitrary: due) simp_all

lemma times_tick_samples:
  "map time (tick_samples ar k due rss) = map (\<lambda>j. due + 5000 * int j) [0..<length rss]"
proof (induction rss arbitrary: due)
  case Nil
  then show ?case by simp
next
  case (Cons r rss)
  have "[0..<length (r # rss)] = 0 # map Suc [0..<length rss]"
    by (simp add: upt_conv_Cons map_Suc_upt del: upt_Suc)
  then show ?case
    by (simp add: Cons.IH comp_def tick_sample_def algebra_simps)
qed

lemma step_Elapse_running:
  assumes "mounted s" "interval s = Some due"
  shows "step ar s (Elapse rs) =
           s\<lparr> vitalsData := tick ar due rs (vitalsData s), interval := Some (due + 5000) \<rparr>"
  using assms by simp

lemma run_ticks_state:
  assumes "mounted s" "interval s = Some due"
  shows "mounted (run ar s (map Elapse rss)) \<and>
         interval (run ar s (map Elapse rss)) = Some (due + 5000 * int (length rss))"
  using assms
proof (induction rss arbitrary: s due)
  case Nil
  then show ?case by simp
next
  case (Cons r rss)
  let ?s1 = "step ar s (Elapse r)"
  have "mounted ?s1" "interval ?s1 = Some (due + 5000)"
    using Cons.prems by simp_all
  from Cons.IH [OF this] show ?case
    by (simp add: algebra_simps)
qed

lemma run_ticks_series:
  assumes "mounted s" "interval s = Some due" "rss \<noteq> []"
  shows "series k (vitalsData (run ar s (map Elapse rss))) =
           slice_last 51 (series k (vitalsData s) @ tick_samples ar k due rss)"
  using assms
proof (induction rss arbitrary: s due)
  case Nil
  then show ?case by simp
next
  case (Cons r rss)
  let ?s1 = "step ar s (Elapse r)"
  have s1: "mounted ?s1" "interval ?s1 = Some (due + 5000)"
    using Cons.prems by simp_all
  have ser: "series k (vitalsData ?s1) =
      slice_last 50 (series k (vitalsData s)) @ [tick_sample ar k due r]"
    using Cons.prems by (simp add: series_tick)
  show ?case
  proof (cases "rss = []")
    case True
    then show ?thesis
      using ser slice_last_append_one [of 50 "series k (vitalsData s)" "tick_sample ar k due r"]
      by simp
  next
    case False
    have "series k (vitalsData (run ar ?s1 (map Elapse rss))) =
        slice_last 51 (series k (vitalsData ?s1) @ tick_samples ar k (due + 5000) rss)"
      using Cons.IH [OF s1 False] .
    also have "\<dots> = slice_last 51 (slice_last 50 (series k (vitalsData s)) @
        (tick_sample ar k due r # tick_samples ar k (due + 5000) rss))"
      by (simp only: ser append_assoc append_Cons append_Nil)
    also have "\<dots> = slice_last 51 (series k (vitalsData s) @
        (tick_sample ar k due r # tick_samples ar k (due + 5000) rss))"
      by (rule slice_last_slice_last_append) simp
    finally show ?thesis by simp
  qed
qed

text \<open>
  Claim C3. A tick of the running updater gives each of the six series exactly one new
  sample, at its end, after the result of \<open>slice(-50)\<close> on the previous series. The new
  sample bears the time at which the tick is due, and its value is the baseline of the
  kind plus its random summand, in Number arithmetic, with no sine term. The first tick is
  due 5000 ms after the interval is registered and each further tick 5000 ms after the
  one before it, so the samples of successive ticks are five seconds apart.
\<close>

theorem tick_appends_one_sample:
  assumes "mounted s" "interval s = Some due"
  shows "series k (vitalsData (step ar s (Elapse rs))) =
           drop (length (series k (vitalsData s)) - 50) (series k (vitalsData s)) @
             [last (series k (vitalsData (step ar s (Elapse rs))))] \<and>
         time (last (series k (vitalsData (step ar s (Elapse rs))))) = due \<and>
         val (last (heartRate (vitalsData (step ar s (Elapse rs))))) =
           num_add ar (of_int \<lfloor>num_mul ar (rs 0) 30\<rfloor>) 70 \<and>
         val (last (bloodPressureSystolic (vitalsData (step ar s (Elapse rs))))) =
           num_add ar (of_int \<lfloor>num_mul ar (rs 1) 20\<rfloor>) 110 \<and>
         val (last (bloodPressureDiastolic (vitalsData (step ar s (Elapse rs))))) =
           num_add ar (of_int \<lfloor>num_mul ar (rs 2) 15\<rfloor>) 70 \<and>
         val (last (temperature (vitalsData (step ar s (Elapse rs))))) =
           num_add ar (num_lit ar (986 / 10)) (num_mul ar (num_sub ar (rs 3) (5 / 10)) 2) \<and>
         val (last (oxygenSaturation (vitalsData (step ar s (Elapse rs))))) =
           num_add ar (of_int \<lfloor>num_mul ar (rs 4) 5\<rfloor>) 95 \<and>
         val (last (respirationRate (vitalsData (step ar s (Elapse rs))))) =
           num_add ar (of_int \<lfloor>num_mul ar (rs 5) 8\<rfloor>) 16 \<and>
         (commutative_arith ar \<longrightarrow>
            val (last (series k (vitalsData (step ar s (Elapse rs))))) =
              spec_tick_value ar k (rs (draw_offset k))) \<and>
         interval (step ar s (Elapse rs)) = Some (due + 5000) \<and>
         interval (mount ar now rs0 True) = Some (now + 5000) \<and>
         interval (step ar s (SetIsRealTime True now)) =
           (if isRealTime s then Some due else Some (now + 5000)) \<and>
         (rss \<noteq> [] \<longrightarrow>
            series k (vitalsData (run ar s (map Elapse rss))) =
              slice_last 51 (series k (vitalsData s) @ tick_samples ar k due rss) \<and>
            map time (tick_samples ar k due rss) =
              map (\<lambda>j. due + 5000 * int j) [0..<length rss])"
proof -
  let ?s1 = "step ar s (Elapse rs)"
  have st: "?s1 = s\<lparr> vitalsData := tick ar due rs (vitalsData s), interval := Some (due + 5000) \<rparr>"
    using assms by (rule step_Elapse_running)
  have ser: "series k (vitalsData ?s1) =
      drop (length (series k (vitalsData s)) - 50) (series k (vitalsData s)) @
        [tick_sample ar k due rs]" for k
    by (simp only: st) (simp add: series_tick slice_last_50)
  have lst: "last (series k (vitalsData ?s1)) = tick_sample ar k due rs" for k
    by (simp only: ser last_snoc)
  have one: "series k (vitalsData ?s1) =
      drop (length (series k (vitalsData s)) - 50) (series k (vitalsData s)) @
        [last (series k (vitalsData ?s1))]"
    unfolding lst by (rule ser)
  have tm: "time (last (series k (vitalsData ?s1))) = due"
    by (simp add: lst tick_sample_def del: step.simps)
  have v1: "val (last (heartRate (vitalsData ?s1))) = num_add ar (of_int \<lfloor>num_mul ar (rs 0) 30\<rfloor>) 70"
    using lst [of HeartRate] by (simp add: tick_sample_def newPoint_def Math_floor_def)
  have v2: "val (last (bloodPressureSystolic (vitalsData ?s1))) =
      num_add ar (of_int \<lfloor>num_mul ar (rs 1) 20\<rfloor>) 110"
    using lst [of Systolic] by (simp add: tick_sample_def newPoint_def Math_floor_def)
  have v3: "val (last (bloodPressureDiastolic (vitalsData ?s1))) =
      num_add ar (of_int \<lfloor>num_mul ar (rs 2) 15\<rfloor>) 70"
    using lst [of Diastolic] by (simp add: tick_sample_def newPoint_def Math_floor_def)
  have v4: "val (last (temperature (vitalsData ?s1))) =
      num_add ar (num_lit ar (986 / 10)) (num_mul ar (num_sub ar (rs 3) (5 / 10)) 2)"
    using lst [of Temperature] by (simp add: tick_sample_def newPoint_def)
  have v5: "val (last (oxygenSaturation (vitalsData ?s1))) =
      num_add ar (of_int \<lfloor>num_mul ar (rs 4) 5\<rfloor>) 95"
    using lst [of OxygenSaturation] by (simp add: tick_sample_def newPoint_def Math_floor_def)
  have v6: "val (last (respirationRate (vitalsData ?s1))) =
      num_add ar (of_int \<lfloor>num_mul ar (rs 5) 8\<rfloor>) 16"
    using lst [of RespirationRate] by (simp add: tick_sample_def newPoint_def Math_floor_def)
  have sp: "val (last (series k (vitalsData ?s1))) = spec_tick_value ar k (rs (draw_offset k))"
    if "commutative_arith ar"
    by (simp add: lst tick_sample_def newPoint_field [OF that] del: step.simps)
  have iv: "interval ?s1 = Some (due + 5000)"
    by (simp only: st) simp
  have mt: "interval (mount ar now rs0 True) = Some (now + 5000)"
    by (simp add: mount_def)
  have rt: "interval (step ar s (SetIsRealTime True now)) =
      (if isRealTime s then Some due else Some (now + 5000))"
    using assms by simp
  have many: "series k (vitalsData (run ar s (map Elapse rss))) =
      slice_last 51 (series k (vitalsData s) @ tick_samples ar k due rss)" if "rss \<noteq> []"
    using assms that by (rule run_ticks_series)
  show ?thesis
    by (intro conjI impI one tm v1 v2 v3 v4 v5 v6 sp iv mt rt many times_tick_samples)
qed

theorem tick_appends_one_sample_witness:
  "mounted (mount grid_arith 0 (\<lambda>n. 0) True) \<and>
   interval (mount grid_arith 0 (\<lambda>n. 0) True) = Some 5000 \<and>
   last (heartRate (vitalsData
     (step grid_arith (mount grid_arith 0 (\<lambda>n. 0) True) (Elapse (\<lambda>n. draw_07))))) =
     \<lparr> time = 5000, val = 91 \<rparr> \<and>
   last (bloodPressureSystolic (vitalsData
     (step grid_arith (mount grid_arith 0 (\<lambda>n. 0) True) (Elapse (\<lambda>n. draw_07))))) =
     \<lparr> time = 5000, val = 124 \<rparr> \<and>
   interval (step grid_arith (mount grid_arith 0 (\<lambda>n. 0) True) (Elapse (\<lambda>n. draw_07))) =
     Some 10000"
proof -
  let ?s = "mount grid_arith 0 (\<lambda>n. 0) True"
  let ?s1 = "step grid_arith ?s (Elapse (\<lambda>n. draw_07))"
  have m: "mounted ?s" "interval ?s = Some 5000"
    by (simp_all add: mount_def)
  have p: "num_add grid_arith (of_int \<lfloor>num_mul grid_arith draw_07 30\<rfloor>) 70 = 91"
    "num_add grid_arith (of_int \<lfloor>num_mul grid_arith draw_07 20\<rfloor>) 110 = 124"
    by (simp_all add: grid_arith_def draw_07_def round_def)
  have r: "x = \<lparr> time = time x, val = val x \<rparr>" for x :: sample
    by simp
  from tick_appends_one_sample [OF m, of HeartRate grid_arith "\<lambda>n. draw_07"]
  have h: "time (last (heartRate (vitalsData ?s1))) = 5000"
    "val (last (heartRate (vitalsData ?s1))) = 91"
    "interval ?s1 = Some 10000"
    using p by (simp_all del: step.simps)
  from tick_appends_one_sample [OF m, of Systolic grid_arith "\<lambda>n. draw_07"]
  have b: "time (last (bloodPressureSystolic (vitalsData ?s1))) = 5000"
    "val (last (bloodPressureSystolic (vitalsData ?s1))) = 124"
    using p by (simp_all del: step.simps)
  show ?thesis
    using m h b r [of "last (heartRate (vitalsData ?s1))"]
      r [of "last (bloodPressureSystolic (vitalsData ?s1))"]
    by (simp del: step.simps)
qed

section \<open>Window changes\<close>

lemma hours_of_window_hours: "hours_of tr = window_hours tr"
  by (cases tr) (simp_all add: hours_of_def)

text \<open>
  Claim C5. When a click selects a window other than the current one, the whole set of
  six series is replaced by a fresh bulk generation for the window requested: 1, 6, 24 or
  7 * 24 hours, that is 13, 73, 289 or 2017 samples on each series, from the requested
  number of hours before the time of the click up to that time. The new series are the
  same from whatever state the change starts: nothing of the samples held before,
  appended by ticks or not, is kept.
\<close>

theorem window_change_regenerates:
  assumes "mounted s" "tr \<noteq> timeRange s"
  shows "vitalsData (step ar s (SetTimeRange tr now rs)) = window_effect ar now rs tr \<and>
         timeRange (step ar s (SetTimeRange tr now rs)) = tr \<and>
         series k (vitalsData (step ar s (SetTimeRange tr now rs))) =
           bulk_series ar now rs (window_hours tr) k \<and>
         length (series k (vitalsData (step ar s (SetTimeRange tr now rs)))) =
           nat (window_hours tr * 12 + 1) \<and>
         length (series k (vitalsData (step ar s (SetTimeRange tr now rs)))) =
           (case tr of T1h \<Rightarrow> 13 | T6h \<Rightarrow> 73 | T24h \<Rightarrow> 289 | T7d \<Rightarrow> 2017) \<and>
         time (hd (series k (vitalsData (step ar s (SetTimeRange tr now rs))))) =
           now - (case tr of T1h \<Rightarrow> 3600000 | T6h \<Rightarrow> 21600000 | T24h \<Rightarrow> 86400000
                  | T7d \<Rightarrow> 604800000) \<and>
         time (last (series k (vitalsData (step ar s (SetTimeRange tr now rs))))) = now \<and>
         (mounted s' \<and> tr \<noteq> timeRange s' \<longrightarrow>
            vitalsData (step ar s' (SetTimeRange tr now rs)) =
            vitalsData (step ar s (SetTimeRange tr now rs)))"
proof -
  let ?xs = "series k (vitalsData (step ar s (SetTimeRange tr now rs)))"
  have xs: "?xs = bulk_series ar now rs (window_hours tr) k"
    using assms by (simp add: series_window_effect hours_of_window_hours)
  have len: "length ?xs = nat (window_hours tr * 12 + 1)"
    by (simp only: xs bulk_series_length)
  have len': "length ?xs = (case tr of T1h \<Rightarrow> 13 | T6h \<Rightarrow> 73 | T24h \<Rightarrow> 289 | T7d \<Rightarrow> 2017)"
    unfolding len by (cases tr) simp_all
  have ne: "?xs \<noteq> []"
    using len' by (cases tr) auto
  have "hd ?xs = ?xs ! 0"
    using ne by (simp add: hd_conv_nth)
  then have first: "time (hd ?xs) = now - window_hours tr * 12 * 300000"
    unfolding xs using bulk_series_time [of 0 "window_hours tr" ar now rs k]
    by (cases tr) simp_all
  have hd': "time (hd ?xs) =
      now - (case tr of T1h \<Rightarrow> 3600000 | T6h \<Rightarrow> 21600000 | T24h \<Rightarrow> 86400000
             | T7d \<Rightarrow> 604800000)"
    unfolding first by (cases tr) simp_all
  have "last ?xs = ?xs ! nat (window_hours tr * 12)"
    using ne len by (cases tr) (simp_all add: last_conv_nth)
  then have lst: "time (last ?xs) = now"
    unfolding xs using bulk_series_time [of "nat (window_hours tr * 12)" "window_hours tr" ar now rs k]
    by (cases tr) simp_all
  have rest: "vitalsData (step ar s (SetTimeRange tr now rs)) = window_effect ar now rs tr \<and>
      timeRange (step ar s (SetTimeRange tr now rs)) = tr \<and>
      (mounted s' \<and> tr \<noteq> timeRange s' \<longrightarrow>
         vitalsData (step ar s' (SetTimeRange tr now rs)) =
         vitalsData (step ar s (SetTimeRange tr now rs)))"
    using assms by simp
  show ?thesis
    using rest xs len len' hd' lst by blast
qed

theorem window_change_regenerates_witness:
  "mounted (step exact_arith (mount exact_arith 0 (\<lambda>n. 0) True) (Elapse (\<lambda>n. 1 / 2))) \<and>
   T7d \<noteq> timeRange (step exact_arith (mount exact_arith 0 (\<lambda>n. 0) True) (Elapse (\<lambda>n. 1 / 2))) \<and>
   mounted (mount exact_arith 7 (\<lambda>n. 1 / 3) False) \<and>
   T7d \<noteq> timeRange (mount exact_arith 7 (\<lambda>n. 1 / 3) False) \<and>
   vitalsData (step exact_arith (mount exact_arith 7 (\<lambda>n. 1 / 3) False)
     (SetTimeRange T7d 9000 (\<lambda>n. 1 / 4))) =
   vitalsData (step exact_arith
     (step exact_arith (mount exact_arith 0 (\<lambda>n. 0) True) (Elapse (\<lambda>n. 1 / 2)))
     (SetTimeRange T7d 9000 (\<lambda>n. 1 / 4))) \<and>
   length (series Diastolic
     (vitalsData (step exact_arith
       (step exact_arith (mount exact_arith 0 (\<lambda>n. 0) True) (Elapse (\<lambda>n. 1 / 2)))
       (SetTimeRange T7d 9000 (\<lambda>n. 1 / 4))))) = 2017"
proof -
  let ?s = "step exact_arith (mount exact_arith 0 (\<lambda>n. 0) True) (Elapse (\<lambda>n. 1 / 2))"
  have a: "mounted ?s" "T7d \<noteq> timeRange ?s"
    by (simp_all add: mount_def)
  have b: "mounted (mount exact_arith 7 (\<lambda>n. 1 / 3) False)"
    "T7d \<noteq> timeRange (mount exact_arith 7 (\<lambda>n. 1 / 3) False)"
    by (simp_all add: mount_def)
  note th = window_change_regenerates
    [OF a, of exact_arith 9000 "\<lambda>n. 1 / 4" Diastolic "mount exact_arith 7 (\<lambda>n. 1 / 3) False"]
  have e: "vitalsData (step exact_arith (mount exact_arith 7 (\<lambda>n. 1 / 3) False)
          (SetTimeRange T7d 9000 (\<lambda>n. 1 / 4))) =
        vitalsData (step exact_arith ?s (SetTimeRange T7d 9000 (\<lambda>n. 1 / 4)))"
    using th b by blast
  have "length (series Diastolic
          (vitalsData (step exact_arith ?s (SetTimeRange T7d 9000 (\<lambda>n. 1 / 4))))) =
        (case T7d of T1h \<Rightarrow> 13 | T6h \<Rightarrow> 73 | T24h \<Rightarrow> 289 | T7d \<Rightarrow> 2017)"
    using th by blast
  then have l: "length (series Diastolic
          (vitalsData (step exact_arith ?s (SetTimeRange T7d 9000 (\<lambda>n. 1 / 4))))) = 2017"
    by (simp only: timeRange.case)
  show ?thesis
    using a b e l by blast
qed

section \<open>The stopped updater\<close>

lemma run_elapses_stopped: "interval s = None \<Longrightarrow> run ar s (map Elapse rss) = s"
  by (induction rss arbitrary: s) simp_all

lemma step_interval_inv:
  "(interval s \<noteq> None) = (mounted s \<and> isRealTime s) \<Longrightarrow>
     (interval (step ar s e) \<noteq> None) = (mounted (step ar s e) \<and> isRealTime (step ar s e))"
  by (cases e) (auto split: option.splits)

lemma run_interval_inv:
  "(interval s \<noteq> None) = (mounted s \<and> isRealTime s) \<Longrightarrow>
     (interval (run ar s es) \<noteq> None) = (mounted (run ar s es) \<and> isRealTime (run ar s es))"
proof (induction es arbitrary: s)
  case Nil
  then show ?case by simp
next
  case (Cons e es)
  from Cons.prems
  have "(interval (step ar s e) \<noteq> None) = (mounted (step ar s e) \<and> isRealTime (step ar s e))"
    by (rule step_interval_inv)
  then show ?case using Cons.IH by simp
qed

lemma reachable_interval:
  "(interval (run ar (mount ar now rs rt) es) \<noteq> None) =
     (mounted (run ar (mount ar now rs rt) es) \<and> isRealTime (run ar (mount ar now rs rt) es))"
  by (rule run_interval_inv) (simp add: mount_def)

text \<open>
  Claim C6. Once the updater is stopped, by the unmount of the view or by the clearing of
  the real-time flag, no number of elapsed tick intervals changes any series: the state
  after them holds the series that it held when the updater stopped.
\<close>

theorem stopped_updater_is_inert:
  assumes "s = run ar (mount ar now0 rs0 rt) es"
    and "s' = step ar s Unmount \<or> s' = step ar s (SetIsRealTime False t)"
  shows "interval s' = None \<and>
         run ar s' (map Elapse rss) = s' \<and>
         series k (vitalsData (run ar s' (map Elapse rss))) = series k (vitalsData s')"
proof -
  have "(interval s \<noteq> None) = (mounted s \<and> isRealTime s)"
    unfolding assms(1) by (rule reachable_interval)
  then have "interval s' = None"
    using assms(2) by (auto split: if_splits)
  then show ?thesis
    by (simp add: run_elapses_stopped)
qed

theorem stopped_updater_is_inert_witness:
  "run exact_arith
     (step exact_arith (run exact_arith (mount exact_arith 0 (\<lambda>n. 0) True) [Elapse (\<lambda>n. 1 / 2)])
        (SetIsRealTime False 7000))
     [Elapse (\<lambda>n. 1 / 3), Elapse (\<lambda>n. 1 / 4), Elapse (\<lambda>n. 1 / 5)] =
   step exact_arith (run exact_arith (mount exact_arith 0 (\<lambda>n. 0) True) [Elapse (\<lambda>n. 1 / 2)])
     (SetIsRealTime False 7000) \<and>
   length (heartRate (vitalsData
     (run exact_arith
        (step exact_arith
           (run exact_arith (mount exact_arith 0 (\<lambda>n. 0) True) [Elapse (\<lambda>n. 1 / 2)])
           (SetIsRealTime False 7000))
        [Elapse (\<lambda>n. 1 / 3), Elapse (\<lambda>n. 1 / 4), Elapse (\<lambda>n. 1 / 5)]))) = 51"
proof -
  let ?s = "run exact_arith (mount exact_arith 0 (\<lambda>n. 0) True) [Elapse (\<lambda>n. 1 / 2)]"
  let ?s' = "step exact_arith ?s (SetIsRealTime False 7000)"
  have len: "length (heartRate (vitalsData (mount exact_arith 0 (\<lambda>n. 0) True))) = 73"
    using bulk_series_length [of exact_arith 0 "\<lambda>n. 0" 6 HeartRate]
    by (simp add: mount_def window_effect_def bulk_series_def hours_of_def)
  have l51: "length (heartRate (vitalsData ?s')) = 51"
    using len by (simp add: mount_def tick_def Let_def length_slice_last)
  have "run exact_arith ?s' (map Elapse [\<lambda>n. 1 / 3, \<lambda>n. 1 / 4, \<lambda>n. 1 / 5]) = ?s'"
    using stopped_updater_is_inert [of ?s exact_arith 0 "\<lambda>n. 0" True "[Elapse (\<lambda>n. 1 / 2)]" ?s'
        7000 "[\<lambda>n. 1 / 3, \<lambda>n. 1 / 4, \<lambda>n. 1 / 5]" HeartRate]
    by blast
  then have "run exact_arith ?s' [Elapse (\<lambda>n. 1 / 3), Elapse (\<lambda>n. 1 / 4), Elapse (\<lambda>n. 1 / 5)] = ?s'"
    by (simp del: run.simps step.simps)
  then show ?thesis using l51 by (simp del: run.simps step.simps)
qed

section \<open>The six series stay aligned\<close>

lemma map_slice_last: "map f (slice_last n xs) = slice_last n (map f xs)"
  by (simp add: slice_last_def drop_map)

lemma times_tick:
  "map time (series k (tick ar now rs prev)) = slice_last 50 (map time (series k prev)) @ [now]"
  by (simp add: series_tick map_slice_last tick_sample_def)

lemma times_window_effect:
  "map time (series k (window_effect ar now rs tr)) =
     map (\<lambda>j. now - (hours_of tr * 12 - int j) * 300000) [0..<nat (hours_of tr * 12 + 1)]"
  by (simp add: series_window_effect bulk_series_closed comp_def)

lemma step_aligned:
  assumes "\<And>k. map time (series k (vitalsData s)) = map time (heartRate (vitalsData s))"
  shows "map time (series k (vitalsData (step ar s e))) =
           map time (heartRate (vitalsData (step ar s e)))"
proof (cases e)
  case (SetTimeRange tr now rs)
  then show ?thesis
    using assms [of k] times_window_effect [of k ar now rs tr]
      times_window_effect [of HeartRate ar now rs tr]
    by simp
next
  case (Elapse rs)
  show ?thesis
  proof (cases "interval s")
    case None
    then show ?thesis using Elapse assms [of k] by simp
  next
    case (Some due)
    then show ?thesis
      using Elapse assms [of k] times_tick [of k ar due rs "vitalsData s"]
        times_tick [of HeartRate ar due rs "vitalsData s"]
      by simp
  qed
next
  case (SetIsRealTime rt now)
  then show ?thesis using assms [of k] by simp
next
  case Unmount
  then show ?thesis using assms [of k] by simp
qed

lemma run_aligned:
  assumes "\<And>k. map time (series k (vitalsData s)) = map time (heartRate (vitalsData s))"
  shows "map time (series k (vitalsData (run ar s es))) =
           map time (heartRate (vitalsData (run ar s es)))"
  using assms
proof (induction es arbitrary: s k)
  case Nil
  then show ?case by simp
next
  case (Cons e es)
  have "map time (series k' (vitalsData (step ar s e))) =
      map time (heartRate (vitalsData (step ar s e)))" for k'
    by (rule step_aligned) (rule Cons.prems)
  then show ?case using Cons.IH by simp
qed

lemma mount_aligned:
  "map time (series k (vitalsData (mount ar now rs rt))) =
     map time (heartRate (vitalsData (mount ar now rs rt)))"
  using times_window_effect [of k ar now rs T6h] times_window_effect [of HeartRate ar now rs T6h]
  by (simp add: mount_def)

text \<open>
  Claim C8. In every state that the component reaches from its mount, by window changes,
  ticks, changes of the real-time flag and the unmount, any two of the six series have the
  same sequence of time stamps, hence the same length.
\<close>

theorem series_stay_aligned:
  "map time (series k (vitalsData (run ar (mount ar now rs rt) es))) =
     map time (series k' (vitalsData (run ar (mount ar now rs rt) es))) \<and>
   length (series k (vitalsData (run ar (mount ar now rs rt) es))) =
     length (series k' (vitalsData (run ar (mount ar now rs rt) es)))"
proof -
  let ?v = "vitalsData (run ar (mount ar now rs rt) es)"
  have a: "map time (series j ?v) = map time (heartRate ?v)" for j
    by (rule run_aligned) (rule mount_aligned)
  have t: "map time (series k ?v) = map time (series k' ?v)"
    using a [of k] a [of k'] by simp
  have l: "length (series k ?v) = length (series k' ?v)"
    using arg_cong [OF t, of length] by simp
  show ?thesis
    by (intro conjI) (rule t, rule l)
qed

section \<open>The length of the rolling window\<close>

text \<open>
  Claim C1 fails on the code: \<open>slice(-50)\<close> keeps fifty samples and the tick then appends
  the new one. After more than fifty ticks of a mounted, running component, every series
  holds 51 samples, not 50: the samples of the 51 most recent ticks, oldest first.
\<close>

theorem rolling_window_holds_51:
  assumes "50 < length rss"
  shows "series k (vitalsData (run ar (mount ar now rs True) (map Elapse rss))) =
           slice_last 51 (tick_samples ar k (now + 5000) rss) \<and>
         length (series k (vitalsData (run ar (mount ar now rs True) (map Elapse rss)))) = 51"
proof -
  let ?s = "mount ar now rs True"
  have m: "mounted ?s" "interval ?s = Some (now + 5000)"
    by (simp_all add: mount_def)
  have ne: "rss \<noteq> []"
    using assms by auto
  have "series k (vitalsData (run ar ?s (map Elapse rss))) =
      slice_last 51 (series k (vitalsData ?s) @ tick_samples ar k (now + 5000) rss)"
    by (rule run_ticks_series [OF m ne])
  also have "\<dots> = slice_last 51 (tick_samples ar k (now + 5000) rss)"
    using assms by (simp add: slice_last_def length_tick_samples)
  finally have eq: "series k (vitalsData (run ar ?s (map Elapse rss))) =
      slice_last 51 (tick_samples ar k (now + 5000) rss)" .
  have "length (slice_last 51 (tick_samples ar k (now + 5000) rss)) = 51"
    using assms by (simp add: length_slice_last length_tick_samples)
  with eq show ?thesis by simp
qed

theorem rolling_window_holds_51_witness:
  "50 < length (replicate 51 ((\<lambda>n. 0) :: rng)) \<and>
   length (heartRate (vitalsData (run exact_arith (mount exact_arith 0 (\<lambda>n. 0) True)
     (map Elapse (replicate 51 (\<lambda>n. 0)))))) = 51"
  using rolling_window_holds_51 [of "replicate 51 (\<lambda>n. 0)" HeartRate exact_arith 0 "\<lambda>n. 0"]
  by (simp add: length_slice_last length_tick_samples del: run.simps step.simps)

section \<open>Alerts\<close>

lemma acknowledge_unmatched:
  "alertId \<notin> alert_id ` set prev \<Longrightarrow> handleAcknowledgeAlert alertId prev = prev"
  unfolding handleAcknowledgeAlert_def by (induction prev) auto

lemma dismiss_unmatched:
  "alertId \<notin> alert_id ` set prev \<Longrightarrow> handleDismissAlert alertId prev = prev"
  unfolding handleDismissAlert_def by (induction prev) auto

lemma acknowledge_at:
  assumes "distinct (map alert_id prev)" "i < length prev" "alert_id (prev ! i) = alertId"
  shows "handleAcknowledgeAlert alertId prev = prev[i := (prev ! i)\<lparr> acknowledged := True \<rparr>]"
proof (rule nth_equalityI)
  show "length (handleAcknowledgeAlert alertId prev) =
      length (prev[i := (prev ! i)\<lparr> acknowledged := True \<rparr>])"
    by (simp add: handleAcknowledgeAlert_def)
next
  fix j
  assume "j < length (handleAcknowledgeAlert alertId prev)"
  then have j: "j < length prev"
    by (simp add: handleAcknowledgeAlert_def)
  have "alert_id (prev ! j) = alertId \<longleftrightarrow> j = i"
    using assms j nth_eq_iff_index_eq [of "map alert_id prev" j i] by auto
  then show "handleAcknowledgeAlert alertId prev ! j =
      prev[i := (prev ! i)\<lparr> acknowledged := True \<rparr>] ! j"
    using j assms(2) by (auto simp: handleAcknowledgeAlert_def nth_list_update)
qed

lemma dismiss_at:
  assumes "distinct (map alert_id prev)" "i < length prev" "alert_id (prev ! i) = alertId"
  shows "handleDismissAlert alertId prev = take i prev @ drop (Suc i) prev"
proof -
  have split: "prev = take i prev @ prev ! i # drop (Suc i) prev"
    using assms(2) by (simp add: id_take_nth_drop)
  have d: "distinct (map alert_id (take i prev) @ alert_id (prev ! i) # map alert_id (drop (Suc i) prev))"
    using assms(1) arg_cong [OF split, of "map alert_id"] by simp
  then have "alertId \<notin> alert_id ` set (take i prev)" "alertId \<notin> alert_id ` set (drop (Suc i) prev)"
    using assms(3) by auto
  then have "handleDismissAlert alertId (take i prev) = take i prev"
    "handleDismissAlert alertId (drop (Suc i) prev) = drop (Suc i) prev"
    by (simp_all add: dismiss_unmatched)
  then have "filter (\<lambda>alert. alert_id alert \<noteq> alertId)
      (take i prev @ prev ! i # drop (Suc i) prev) = take i prev @ drop (Suc i) prev"
    using assms(3) by (simp add: handleDismissAlert_def)
  then show ?thesis
    using split by (simp add: handleDismissAlert_def)
qed

lemma acknowledge_nth:
  "i < length prev \<Longrightarrow>
     handleAcknowledgeAlert alertId prev ! i =
       (if alert_id (prev ! i) = alertId then (prev ! i)\<lparr> acknowledged := True \<rparr> else prev ! i)"
  by (simp add: handleAcknowledgeAlert_def)

lemma acknowledge_ids: "map alert_id (handleAcknowledgeAlert alertId prev) = map alert_id prev"
  unfolding handleAcknowledgeAlert_def by (induction prev) auto

text \<open>
  Claim C9. Acknowledging by id keeps the length and the order of the list and changes
  nothing but the flag \<open>acknowledged\<close>, set to true, of the alerts with that id;
  dismissing by id keeps exactly the alerts with another id, in their order. Identifiers
  are unique in \<open>mockAlerts\<close> and stay so under both operations; with unique
  identifiers, acknowledging updates the one alert at the position of that id and
  dismissing removes that one alert. For an id that no alert has, both operations return
  the list as it is.
\<close>

theorem alert_handlers_frame:
  "length (handleAcknowledgeAlert alertId prev) = length prev \<and>
   map alert_id (handleAcknowledgeAlert alertId prev) = map alert_id prev \<and>
   (\<forall>j < length prev.
      handleAcknowledgeAlert alertId prev ! j =
        (if alert_id (prev ! j) = alertId then (prev ! j)\<lparr> acknowledged := True \<rparr> else prev ! j)) \<and>
   handleDismissAlert alertId prev = filter (\<lambda>a. alert_id a \<noteq> alertId) prev \<and>
   (alertId \<notin> alert_id ` set prev \<longrightarrow>
      handleAcknowledgeAlert alertId prev = prev \<and> handleDismissAlert alertId prev = prev) \<and>
   (distinct (map alert_id prev) \<and> i < length prev \<and> alert_id (prev ! i) = alertId \<longrightarrow>
      handleAcknowledgeAlert alertId prev = prev[i := (prev ! i)\<lparr> acknowledged := True \<rparr>] \<and>
      handleDismissAlert alertId prev = take i prev @ drop (Suc i) prev) \<and>
   distinct (map alert_id (mockAlerts now)) \<and>
   (distinct (map alert_id prev) \<longrightarrow>
      distinct (map alert_id (handleAcknowledgeAlert alertId prev)) \<and>
      distinct (map alert_id (handleDismissAlert alertId prev)))"
proof -
  have len: "length (handleAcknowledgeAlert alertId prev) = length prev"
    by (simp add: handleAcknowledgeAlert_def)
  have dis: "handleDismissAlert alertId prev = filter (\<lambda>a. alert_id a \<noteq> alertId) prev"
    by (simp add: handleDismissAlert_def)
  have mock: "distinct (map alert_id (mockAlerts now))"
    by (simp add: mockAlerts_def)
  have keep: "distinct (map alert_id (handleDismissAlert alertId prev))"
    if "distinct (map alert_id prev)"
    using that by (simp add: handleDismissAlert_def distinct_map_filter)
  show ?thesis
    using len dis mock keep acknowledge_ids [of alertId prev]
      acknowledge_unmatched [of alertId prev] dismiss_unmatched [of alertId prev]
      acknowledge_at [of prev i alertId] dismiss_at [of prev i alertId]
    by (simp add: acknowledge_nth)
qed

theorem alert_handlers_frame_witness:
  "distinct (map alert_id (mockAlerts 0)) \<and> 1 < length (mockAlerts 0) \<and>
   alert_id (mockAlerts 0 ! 1) = ''alert-002'' \<and>
   handleAcknowledgeAlert ''alert-002'' (mockAlerts 0) =
     [mockAlerts 0 ! 0, (mockAlerts 0 ! 1)\<lparr> acknowledged := True \<rparr>, mockAlerts 0 ! 2] \<and>
   handleDismissAlert ''alert-002'' (mockAlerts 0) = [mockAlerts 0 ! 0, mockAlerts 0 ! 2] \<and>
   ''alert-999'' \<notin> alert_id ` set (mockAlerts 0) \<and>
   handleAcknowledgeAlert ''alert-999'' (mockAlerts 0) = mockAlerts 0 \<and>
   handleDismissAlert ''alert-999'' (mockAlerts 0) = mockAlerts 0"
proof -
  have h: "distinct (map alert_id (mockAlerts 0))" "1 < length (mockAlerts 0)"
    "alert_id (mockAlerts 0 ! 1) = ''alert-002''"
    by (simp_all add: mockAlerts_def)
  have u: "''alert-999'' \<notin> alert_id ` set (mockAlerts 0)"
    by (simp add: mockAlerts_def)
  have shape: "(mockAlerts 0)[1 := (mockAlerts 0 ! 1)\<lparr> acknowledged := True \<rparr>] =
        [mockAlerts 0 ! 0, (mockAlerts 0 ! 1)\<lparr> acknowledged := True \<rparr>, mockAlerts 0 ! 2]"
    "take 1 (mockAlerts 0) @ drop (Suc 1) (mockAlerts 0) = [mockAlerts 0 ! 0, mockAlerts 0 ! 2]"
    by (simp_all add: mockAlerts_def)
  have a: "handleAcknowledgeAlert ''alert-002'' (mockAlerts 0) =
        (mockAlerts 0)[1 := (mockAlerts 0 ! 1)\<lparr> acknowledged := True \<rparr>] \<and>
      handleDismissAlert ''alert-002'' (mockAlerts 0) =
        take 1 (mockAlerts 0) @ drop (Suc 1) (mockAlerts 0)"
    using alert_handlers_frame [of "''alert-002''" "mockAlerts 0" 1 0] h by blast
  have b: "handleAcknowledgeAlert ''alert-999'' (mockAlerts 0) = mockAlerts 0 \<and>
      handleDismissAlert ''alert-999'' (mockAlerts 0) = mockAlerts 0"
    using alert_handlers_frame [of "''alert-999''" "mockAlerts 0" 0 0] u by blast
  show ?thesis
    using h u a b by (simp only: shape simp_thms)
qed

section \<open>Patient search\<close>

lemma ex_le_Suc: "(\<exists>i \<le> Suc n. P i) \<longleftrightarrow> P 0 \<or> (\<exists>i \<le> n. P (Suc i))"
proof
  assume "\<exists>i \<le> Suc n. P i"
  then obtain i where i: "i \<le> Suc n" "P i" by blast
  show "P 0 \<or> (\<exists>i \<le> n. P (Suc i))"
  proof (cases i)
    case 0
    then show ?thesis using i by simp
  next
    case (Suc j)
    then show ?thesis using i by auto
  qed
next
  assume "P 0 \<or> (\<exists>i \<le> n. P (Suc i))"
  then show "\<exists>i \<le> Suc n. P i" by auto
qed

lemma str_includes_iff:
  "str_includes s q \<longleftrightarrow> (\<exists>i \<le> length s. take (length q) (drop i s) = q)"
proof (induction s)
  case Nil
  then show ?case by auto
next
  case (Cons c s)
  show ?case
    by (simp add: Cons.IH ex_le_Suc [of "length s"])
qed

lemma str_includes_parts: "str_includes s q \<longleftrightarrow> (\<exists>ps ss. s = ps @ q @ ss)"
proof
  assume "str_includes s q"
  then obtain i where "i \<le> length s" "take (length q) (drop i s) = q"
    by (auto simp: str_includes_iff)
  then have "s = take i s @ q @ drop (length q) (drop i s)"
    by (metis append_take_drop_id)
  then show "\<exists>ps ss. s = ps @ q @ ss" by blast
next
  assume "\<exists>ps ss. s = ps @ q @ ss"
  then obtain ps ss where "s = ps @ q @ ss" by blast
  then have "length ps \<le> length s \<and> take (length q) (drop (length ps) s) = q"
    by simp
  then show "str_includes s q"
    unfolding str_includes_iff by blast
qed

lemma list_all2_same_image:
  "list_all2 (\<lambda>a b. f a = f b) xs ys \<longleftrightarrow> map f xs = map f ys"
proof (induction xs arbitrary: ys)
  case Nil
  then show ?case by auto
next
  case (Cons x xs)
  then show ?case by (cases ys) auto
qed

lemma list_all2_same_ignoring_case:
  "list_all2 same_ignoring_case xs ys \<longleftrightarrow> map lower_char xs = map lower_char ys"
proof -
  have "same_ignoring_case = (\<lambda>a b. lower_char a = lower_char b)"
    by (simp add: fun_eq_iff same_ignoring_case_def)
  then show ?thesis
    using list_all2_same_image [of lower_char xs ys] by simp
qed

lemma contains_ci_iff:
  "contains_ci s q \<longleftrightarrow> str_includes (toLowerCase s) (toLowerCase q)"
  by (simp add: contains_ci_def str_includes_iff toLowerCase_def
      list_all2_same_ignoring_case take_map drop_map)

lemma contains_ci_empty: "contains_ci s []"
  unfolding contains_ci_def by (rule exI [of _ 0]) simp

lemma matches_iff:
  "matches q p \<longleftrightarrow> contains_ci (name p) q \<or> (\<exists>r. room p = Some r \<and> contains_ci r q)"
  by (cases "room p") (simp_all add: matches_def contains_ci_iff)

text \<open>
  Claim C10. The search returns, in the order of the patient list, exactly the patients
  whose name or room contains the query up to case (some contiguous part of the name or
  room has the length of the query and agrees with it character by character once case is
  ignored; equivalently, the lower-cased query is a contiguous part of the lower-cased
  name or room). The empty query returns all patients, and a patient with no room is
  returned exactly when the name matches. Strings are strings of ASCII characters.
\<close>

theorem patient_search_is_case_insensitive_containment:
  "filterPatients ps q =
     filter (\<lambda>p. contains_ci (name p) q \<or> (\<exists>r. room p = Some r \<and> contains_ci r q)) ps \<and>
   filteredPatients q =
     filter (\<lambda>p. contains_ci (name p) q \<or> (\<exists>r. room p = Some r \<and> contains_ci r q)) mockPatients \<and>
   filterPatients ps [] = ps \<and> filteredPatients [] = mockPatients \<and>
   (room p = None \<longrightarrow> (p \<in> set (filterPatients ps q) \<longleftrightarrow> p \<in> set ps \<and> contains_ci (name p) q)) \<and>
   (contains_ci s q \<longleftrightarrow> (\<exists>ps ss. toLowerCase s = ps @ toLowerCase q @ ss))"
proof -
  have parts: "contains_ci s q \<longleftrightarrow> (\<exists>ps ss. toLowerCase s = ps @ toLowerCase q @ ss)"
    by (simp only: contains_ci_iff str_includes_parts)
  have f: "filterPatients xs q =
      filter (\<lambda>p. contains_ci (name p) q \<or> (\<exists>r. room p = Some r \<and> contains_ci r q)) xs" for xs q
    unfolding filterPatients_def by (rule filter_cong) (simp_all add: matches_iff)
  have e: "filterPatients xs [] = xs" for xs
    by (simp add: f contains_ci_empty)
  have n: "p \<in> set (filterPatients ps q) \<longleftrightarrow> p \<in> set ps \<and> contains_ci (name p) q"
    if "room p = None"
    using that by (auto simp: f)
  show ?thesis
    using f [of ps q] f [of mockPatients q] e [of ps] e [of mockPatients] n parts
    by (simp add: filteredPatients_def)
qed

theorem patient_search_witness:
  "room \<lparr> patient_id = ''005'', name = ''Ann Lee'', age = 50, gender = ''Female'', room = None,
          condition = stable, lastUpdate = ''now'',
          vitals = \<lparr> pv_heartRate = 70, bloodPressure = ''120/80'', pv_temperature = 98,
                     oxygenSat = 99 \<rparr> \<rparr> = None \<and>
   contains_ci ''Ann Lee'' ''LEE'' \<and>
   \<lparr> patient_id = ''005'', name = ''Ann Lee'', age = 50, gender = ''Female'', room = None,
     condition = stable, lastUpdate = ''now'',
     vitals = \<lparr> pv_heartRate = 70, bloodPressure = ''120/80'', pv_temperature = 98,
                oxygenSat = 99 \<rparr> \<rparr>
   \<in> set (filterPatients
     [\<lparr> patient_id = ''005'', name = ''Ann Lee'', age = 50, gender = ''Female'', room = None,
        condition = stable, lastUpdate = ''now'',
        vitals = \<lparr> pv_heartRate = 70, bloodPressure = ''120/80'', pv_temperature = 98,
                   oxygenSat = 99 \<rparr> \<rparr>] ''LEE'') \<and>
   map name (filteredPatients ''SON'') = [''Sarah Johnson'', ''Robert Wilson'']"
proof -
  let ?p = "\<lparr> patient_id = ''005'', name = ''Ann Lee'', age = 50, gender = ''Female'',
      room = None, condition = stable, lastUpdate = ''now'',
      vitals = \<lparr> pv_heartRate = 70, bloodPressure = ''120/80'', pv_temperature = 98,
                 oxygenSat = 99 \<rparr> \<rparr>"
  have c: "contains_ci ''Ann Lee'' ''LEE''"
    by code_simp
  have r: "room ?p = None"
    by simp
  have "?p \<in> set (filterPatients [?p] ''LEE'')"
    using patient_search_is_case_insensitive_containment [of "[?p]" "''LEE''" ?p "[]"] c by simp
  moreover have "map name (filteredPatients ''SON'') = [''Sarah Johnson'', ''Robert Wilson'']"
    by code_simp
  ultimately show ?thesis
    using c r by blast
qed

end
